theory Spec2Isabelle
  imports Complex_Main "HOL-Library.Log_Nat"
begin

section \<open>JavaScript values and Number arithmetic\<close>

text \<open>
  \<^verbatim>\<open>script.js\<close> computes on JavaScript Numbers, that is IEEE 754 binary64 values.
  A finite value is represented by the rational it denotes; the two zeros are kept apart
  (\<open>Fin 0\<close> is \<open>+0\<close>, \<open>NegZero\<close> is \<open>-0\<close>). Every arithmetic result is rounded to the
  nearest binary64 value, ties to even, by \<open>binary64\<close>.
\<close>

datatype number = NaN | PosInf | NegInf | NegZero | Fin rat

text \<open>The values a parameter can hold; \<open>Object\<close> stands for every value of another type.\<close>

datatype js_value = Undefined | Null | Boolean bool | Number number | String string | Object

datatype js_error = Error string

definition val :: "number \<Rightarrow> rat" where
  "val x = (case x of Fin q \<Rightarrow> q | _ \<Rightarrow> 0)"

definition is_inf :: "number \<Rightarrow> bool" where
  "is_inf x = (x = PosInf \<or> x = NegInf)"

definition is_zero :: "number \<Rightarrow> bool" where
  "is_zero x = (x = NegZero \<or> x = Fin 0)"

definition sign_neg :: "number \<Rightarrow> bool" where
  "sign_neg x = (case x of NegInf \<Rightarrow> True | NegZero \<Rightarrow> True | Fin q \<Rightarrow> q < 0 | _ \<Rightarrow> False)"

text \<open>\<open>ilog2 q\<close> is the binary exponent of a positive rational: \<open>2^e \<le> q < 2^(e+1)\<close>.\<close>

definition ilog2 :: "rat \<Rightarrow> int" where
  "ilog2 q = (if 1 \<le> q then int (floorlog 2 (nat \<lfloor>q\<rfloor>)) - 1
              else - int (floorlog 2 (nat (\<lceil>1 / q\<rceil> - 1))))"

definition round_half_even :: "rat \<Rightarrow> int" where
  "round_half_even y =
     (let f = \<lfloor>y\<rfloor>; d = y - of_int f
      in if d < 1 / 2 then f else if 1 / 2 < d then f + 1 else if even f then f else f + 1)"

text \<open>
  Rounding of an exact result to binary64: 53 significant bits, least exponent \<open>-1074\<close>,
  overflow to an infinity at \<open>2^1024\<close>, underflow to a zero of the same sign.
\<close>

definition binary64 :: "rat \<Rightarrow> number" where
  "binary64 q =
     (if q = 0 then Fin 0
      else let a = \<bar>q\<bar>;
               u = max (ilog2 a - 52) (- 1074);
               r = of_int (round_half_even (a / 2 powi u)) * 2 powi u
           in if 2 ^ 1024 \<le> r then (if q < 0 then NegInf else PosInf)
              else if r = 0 then (if q < 0 then NegZero else Fin 0)
              else Fin (if q < 0 then - r else r))"

text \<open>The operator \<^verbatim>\<open>*\<close> on Numbers.\<close>

definition mul :: "number \<Rightarrow> number \<Rightarrow> number" where
  "mul x y =
     (if x = NaN \<or> y = NaN then NaN
      else if (is_inf x \<and> is_zero y) \<or> (is_zero x \<and> is_inf y) then NaN
      else if is_inf x \<or> is_inf y then (if sign_neg x \<noteq> sign_neg y then NegInf else PosInf)
      else if val x * val y = 0 then (if sign_neg x \<noteq> sign_neg y then NegZero else Fin 0)
      else binary64 (val x * val y))"

text \<open>The operator \<^verbatim>\<open>+\<close> on Numbers.\<close>

definition add :: "number \<Rightarrow> number \<Rightarrow> number" where
  "add x y =
     (if x = NaN \<or> y = NaN then NaN
      else if (x = PosInf \<and> y = NegInf) \<or> (x = NegInf \<and> y = PosInf) then NaN
      else if is_inf x then x
      else if is_inf y then y
      else if val x + val y = 0 then (if x = NegZero \<and> y = NegZero then NegZero else Fin 0)
      else binary64 (val x + val y))"

text \<open>The operator \<^verbatim>\<open>%\<close> on Numbers; the remainder is exact and takes the dividend's sign.\<close>

definition rem :: "number \<Rightarrow> number \<Rightarrow> number" where
  "rem x y =
     (if x = NaN \<or> y = NaN then NaN
      else if is_inf x \<or> is_zero y then NaN
      else if is_inf y \<or> is_zero x then x
      else let q = val x / val y;
               t = (if q < 0 then \<lceil>q\<rceil> else \<lfloor>q\<rfloor>);
               r = val x - val y * of_int t
           in if r = 0 then (if sign_neg x then NegZero else Fin 0) else Fin r)"

text \<open>The comparisons \<^verbatim>\<open><\<close>, \<^verbatim>\<open><=\<close> and \<^verbatim>\<open>===\<close> on Numbers.\<close>

definition lt :: "number \<Rightarrow> number \<Rightarrow> bool" where
  "lt x y =
     (if x = NaN \<or> y = NaN then False
      else if x = PosInf \<or> y = NegInf then False
      else if x = NegInf \<or> y = PosInf then True
      else val x < val y)"

definition le :: "number \<Rightarrow> number \<Rightarrow> bool" where
  "le x y = (if x = NaN \<or> y = NaN then False else \<not> lt y x)"

definition strict_eq :: "number \<Rightarrow> number \<Rightarrow> bool" where
  "strict_eq x y =
     (if x = NaN \<or> y = NaN then False
      else if is_inf x \<or> is_inf y then x = y
      else val x = val y)"

subsection \<open>Math.sqrt and Number.prototype.toFixed\<close>

fun isqrt :: "nat \<Rightarrow> nat" where
  "isqrt n =
     (if n = 0 then 0
      else let r = 2 * isqrt (n div 4) in if (r + 1) * (r + 1) \<le> n then r + 1 else r)"

declare isqrt.simps [simp del]

text \<open>\<^verbatim>\<open>Math.sqrt\<close>: the correctly rounded square root.\<close>

definition Math_sqrt :: "number \<Rightarrow> number" where
  "Math_sqrt x =
     (case x of
        NaN \<Rightarrow> NaN
      | PosInf \<Rightarrow> PosInf
      | NegInf \<Rightarrow> NaN
      | NegZero \<Rightarrow> NegZero
      | Fin q \<Rightarrow>
          if q < 0 then NaN
          else if q = 0 then Fin 0
          else let u = ilog2 q div 2 - 52;
                   y = q / 4 powi u;
                   f = isqrt (nat \<lfloor>y\<rfloor>);
                   h = (of_nat f + 1 / 2) * (of_nat f + 1 / 2);
                   n = (if y < h then f else if h < y then f + 1
                        else if even f then f else f + 1)
               in Fin (of_nat n * 2 powi u))"

definition digit_char :: "nat \<Rightarrow> char" where
  "digit_char d = ''0123456789'' ! (d mod 10)"

fun decimal :: "nat \<Rightarrow> string" where
  "decimal n = (if n < 10 then [digit_char n] else decimal (n div 10) @ [digit_char n])"

declare decimal.simps [simp del]

text \<open>
  The digits \<open>(s, k)\<close> of \<^verbatim>\<open>Number::toString\<close> for a value \<open>x \<ge> 10^21\<close> with \<open>d\<close> integer
  digits: the least \<open>k\<close> for which some \<open>k\<close>-digit \<open>s\<close> has \<open>s * 10^(d - k)\<close> round to \<open>x\<close>,
  and among two such \<open>s\<close> the one closer to \<open>x\<close>, as ECMAScript recommends. Seventeen digits
  always identify a binary64 value, so the search ends before its count runs out.
\<close>

fun shortest_digits :: "rat \<Rightarrow> nat \<Rightarrow> nat \<Rightarrow> nat \<Rightarrow> nat \<times> nat" where
  "shortest_digits x d k 0 = (nat \<lfloor>x / 10 ^ (d - k)\<rfloor>, k)"
| "shortest_digits x d k (Suc fuel) =
     (let scale = 10 ^ (d - k);
          lo = nat \<lfloor>x / scale\<rfloor>;
          hi = lo + 1;
          ok_lo = (binary64 (of_nat lo * scale) = Fin x);
          ok_hi = (hi < 10 ^ k \<and> binary64 (of_nat hi * scale) = Fin x)
      in if ok_lo \<and> ok_hi then
           (if x - of_nat lo * scale < of_nat hi * scale - x then (lo, k)
            else if of_nat hi * scale - x < x - of_nat lo * scale then (hi, k)
            else if even lo then (lo, k) else (hi, k))
         else if ok_lo then (lo, k)
         else if ok_hi then (hi, k)
         else shortest_digits x d (Suc k) fuel)"

definition toString_large :: "rat \<Rightarrow> string" where
  "toString_large x =
     (let d = length (decimal (nat \<lfloor>x\<rfloor>));
          (s, n) = (if binary64 (10 ^ d) = Fin x then (1, d + 1)
                    else (fst (shortest_digits x d 1 17), d));
          m = decimal s
      in (if length m = 1 then m else take 1 m @ ''.'' @ drop 1 m) @ ''e+'' @ decimal (n - 1))"

definition fixed_digits :: "rat \<Rightarrow> nat \<Rightarrow> string" where
  "fixed_digits a f =
     (let n = nat \<lfloor>a * 10 ^ f + 1 / 2\<rfloor>;
          m = decimal n
      in if f = 0 then m
         else let m' = (if length m \<le> f then replicate (f + 1 - length m) CHR ''0'' @ m else m);
                  k = length m'
              in take (k - f) m' @ ''.'' @ drop (k - f) m')"

text \<open>\<^verbatim>\<open>x.toFixed(f)\<close> for \<open>0 \<le> f \<le> 100\<close>.\<close>

definition toFixed :: "number \<Rightarrow> nat \<Rightarrow> string" where
  "toFixed x f =
     (case x of
        NaN \<Rightarrow> ''NaN''
      | PosInf \<Rightarrow> ''Infinity''
      | NegInf \<Rightarrow> ''-Infinity''
      | NegZero \<Rightarrow> fixed_digits 0 f
      | Fin q \<Rightarrow>
          (if q < 0 then ''-'' else '''') @
          (if 10 ^ 21 \<le> \<bar>q\<bar> then toString_large \<bar>q\<bar> else fixed_digits \<bar>q\<bar> f))"

section \<open>performCalculations\<close>

record calculations =
  squared :: number
  cubed :: number
  squareRoot :: string
  isEven :: bool
  factorial :: js_value

text \<open>
  The \<^verbatim>\<open>for\<close> loop of the factorial closure, \<^verbatim>\<open>for (let i = 2; i <= number; i++) result *= i\<close>.
  It need not terminate, so the result is optional: \<open>None\<close> is a loop that runs forever.
\<close>

partial_function (option) factorial_loop :: "number \<Rightarrow> number \<Rightarrow> number \<Rightarrow> number option" where
  "factorial_loop number result i =
     (if le i number then factorial_loop number (mul result i) (add i (Fin 1))
      else Some result)"

declare factorial_loop.simps [code]

definition factorial_closure :: "number \<Rightarrow> js_value option" where
  "factorial_closure number =
     (if lt number (Fin 0) then Some Undefined
      else if strict_eq number (Fin 0) \<or> strict_eq number (Fin 1) then Some (Number (Fin 1))
      else map_option Number (factorial_loop number (Fin 1) (Fin 2)))"

text \<open>
  \<open>Some (Inl e)\<close>: the call throws \<open>e\<close>; \<open>Some (Inr r)\<close>: it returns \<open>r\<close>; \<open>None\<close>: it does
  neither. The guard is \<^verbatim>\<open>typeof number !== 'number' || isNaN(number)\<close>.
\<close>

definition performCalculations :: "js_value \<Rightarrow> (js_error + calculations) option" where
  "performCalculations v =
     (case v of
        Number number \<Rightarrow>
          if number = NaN then Some (Inl (Error ''Invalid input: must be a number''))
          else (case factorial_closure number of
                  None \<Rightarrow> None
                | Some f \<Rightarrow>
                    Some (Inr \<lparr>squared = mul number number,
                               cubed = mul (mul number number) number,
                               squareRoot = toFixed (Math_sqrt number) 2,
                               isEven = strict_eq (rem number (Fin 2)) (Fin 0),
                               factorial = f\<rparr>))
      | _ \<Rightarrow> Some (Inl (Error ''Invalid input: must be a number'')))"

section \<open>getRandomColor\<close>

text \<open>\<^verbatim>\<open>Math.floor\<close> on Numbers.\<close>

definition Math_floor :: "number \<Rightarrow> number" where
  "Math_floor x = (case x of Fin q \<Rightarrow> Fin (of_int \<lfloor>q\<rfloor>) | _ \<Rightarrow> x)"

text \<open>
  \<^verbatim>\<open>s[x]\<close> for a string \<open>s\<close> and a Number \<open>x\<close>: the character at an integer index in range,
  \<^verbatim>\<open>undefined\<close> for every other key.
\<close>

definition string_index :: "string \<Rightarrow> number \<Rightarrow> js_value" where
  "string_index s x =
     (case x of
        Fin q \<Rightarrow>
          if q = of_int \<lfloor>q\<rfloor> \<and> 0 \<le> q \<and> nat \<lfloor>q\<rfloor> < length s then String [s ! nat \<lfloor>q\<rfloor>]
          else Undefined
      | NegZero \<Rightarrow> (if 0 < length s then String [s ! 0] else Undefined)
      | _ \<Rightarrow> Undefined)"

text \<open>\<^verbatim>\<open>color += v\<close> for the values \<open>string_index\<close> returns.\<close>

definition append_value :: "string \<Rightarrow> js_value \<Rightarrow> string" where
  "append_value s v = (case v of String t \<Rightarrow> s @ t | _ \<Rightarrow> s @ ''undefined'')"

definition letters :: string where
  "letters = ''0123456789ABCDEF''"

text \<open>
  The random source is the sequence \<open>random\<close> of the values that successive calls of
  \<^verbatim>\<open>Math.random()\<close> return; \<open>n\<close> counts the calls made so far.
\<close>

function color_loop :: "(nat \<Rightarrow> number) \<Rightarrow> nat \<Rightarrow> string \<Rightarrow> nat \<Rightarrow> string \<times> nat" where
  "color_loop random n color i =
     (if i < 6
      then color_loop random (Suc n)
             (append_value color (string_index letters (Math_floor (mul (random n) (Fin 16)))))
             (Suc i)
      else (color, n))"
  by pat_completeness auto
termination
  by (relation "measure (\<lambda>(random, n, color, i). 6 - i)") auto

declare color_loop.simps [simp del]

definition getRandomColor :: "(nat \<Rightarrow> number) \<Rightarrow> nat \<Rightarrow> string \<times> nat" where
  "getRandomColor random n = color_loop random n ''#'' 0"

section \<open>formatText\<close>

text \<open>
  A JavaScript string is a sequence of UTF-16 code units, numbers below \<open>2^16\<close>; \<open>utf16\<close>
  gives the code units of a literal of ASCII characters.
\<close>

type_synonym code_unit = nat


definition is_ascii :: "code_unit \<Rightarrow> bool" where
  "is_ascii u = (u < 128)"

text \<open>
  The class \<^verbatim>\<open>\w\<close> of a regular expression without the flags \<^verbatim>\<open>u\<close> and \<^verbatim>\<open>i\<close> is
  \<^verbatim>\<open>[A-Za-z0-9_]\<close>.
\<close>

definition is_word_char :: "code_unit \<Rightarrow> bool" where
  "is_word_char u =
     ((48 \<le> u \<and> u \<le> 57) \<or> (65 \<le> u \<and> u \<le> 90) \<or> u = 95 \<or> (97 \<le> u \<and> u \<le> 122))"

definition is_lower :: "code_unit \<Rightarrow> bool" where
  "is_lower u = (97 \<le> u \<and> u \<le> 122)"

definition is_upper :: "code_unit \<Rightarrow> bool" where
  "is_upper u = (65 \<le> u \<and> u \<le> 90)"

definition to_upper_ascii :: "code_unit \<Rightarrow> code_unit" where
  "to_upper_ascii u = (if is_lower u then u - 32 else u)"

definition to_lower_ascii :: "code_unit \<Rightarrow> code_unit" where
  "to_lower_ascii u = (if is_upper u then u + 32 else u)"

text \<open>
  \<^verbatim>\<open>String.prototype.toUpperCase\<close> and \<^verbatim>\<open>toLowerCase\<close> follow the Unicode case mappings, which
  may change the length of a string. On a string of ASCII code units they map the letters
  one by one. On every other string they are given by the tables of the platform, which
  are the parameters \<open>unicode_upper\<close> and \<open>unicode_lower\<close>.
\<close>

definition toUpperCase :: "(code_unit list \<Rightarrow> code_unit list) \<Rightarrow> code_unit list \<Rightarrow> code_unit list" where
  "toUpperCase unicode_upper text =
     (if list_all is_ascii text then map to_upper_ascii text else unicode_upper text)"

definition toLowerCase :: "(code_unit list \<Rightarrow> code_unit list) \<Rightarrow> code_unit list \<Rightarrow> code_unit list" where
  "toLowerCase unicode_lower text =
     (if list_all is_ascii text then map to_lower_ascii text else unicode_lower text)"

text \<open>
  \<^verbatim>\<open>text.replace(/\b\w/g, char => char.toUpperCase())\<close>, scanning from the left. \<open>prev\<close> says
  whether the code unit before the current position is a word character, so
  \<open>prev \<noteq> is_word_char c\<close> is the assertion \<^verbatim>\<open>\b\<close> and \<open>is_word_char c\<close> the match of \<^verbatim>\<open>\w\<close>;
  the match is replaced by the string the callback returns.
\<close>

fun replace_word_starts ::
  "(code_unit list \<Rightarrow> code_unit list) \<Rightarrow> bool \<Rightarrow> code_unit list \<Rightarrow> code_unit list" where
  "replace_word_starts unicode_upper prev [] = []"
| "replace_word_starts unicode_upper prev (c # cs) =
     (if prev \<noteq> is_word_char c \<and> is_word_char c
      then toUpperCase unicode_upper [c] @ replace_word_starts unicode_upper (is_word_char c) cs
      else c # replace_word_starts unicode_upper (is_word_char c) cs)"

text \<open>The parameter \<^verbatim>\<open>style = 'capitalize'\<close> takes its default when the argument is \<^verbatim>\<open>undefined\<close>.\<close>

definition formatText ::
  "(code_unit list \<Rightarrow> code_unit list) \<Rightarrow> (code_unit list \<Rightarrow> code_unit list)
     \<Rightarrow> code_unit list \<Rightarrow> js_value \<Rightarrow> code_unit list" where
  "formatText unicode_upper unicode_lower text style_arg =
     (let style = (if style_arg = Undefined then String ''capitalize'' else style_arg)
      in if style = String ''upper'' then toUpperCase unicode_upper text
         else if style = String ''lower'' then toLowerCase unicode_lower text
         else if style = String ''capitalize'' then replace_word_starts unicode_upper False text
         else text)"

section \<open>DOM elements and toggleClass\<close>

record element =
  classList :: "string list"
  style :: "string \<rightharpoonup> string"
  textContent :: string

definition classList_add :: "string \<Rightarrow> element \<Rightarrow> element" where
  "classList_add c e = (if c \<in> set (classList e) then e else e\<lparr>classList := classList e @ [c]\<rparr>)"

definition classList_remove :: "string \<Rightarrow> element \<Rightarrow> element" where
  "classList_remove c e = e\<lparr>classList := removeAll c (classList e)\<rparr>"

definition classList_toggle :: "string \<Rightarrow> element \<Rightarrow> element" where
  "classList_toggle c e = (if c \<in> set (classList e) then classList_remove c e else classList_add c e)"

definition set_style :: "string \<Rightarrow> string \<Rightarrow> element \<Rightarrow> element" where
  "set_style property v e = e\<lparr>style := (style e)(property \<mapsto> v)\<rparr>"

definition toggleClass :: "element \<Rightarrow> string \<Rightarrow> js_value \<Rightarrow> element" where
  "toggleClass element className force =
     (if force = Boolean True then classList_add className element
      else if force = Boolean False then classList_remove className element
      else classList_toggle className element)"

section \<open>Timers\<close>

text \<open>
  The timers of the window: the live ones with their callbacks, in the order they were
  set, and the last handle given out. Handles are positive integers. When a timer fires
  is decided by the event loop; here a firing is an explicit event.
\<close>

record 'cb timer_table =
  live :: "(nat \<times> 'cb) list"
  last_id :: nat

definition add_timer :: "'cb \<Rightarrow> 'cb timer_table \<Rightarrow> nat \<times> 'cb timer_table" where
  "add_timer cb tt =
     (let h = Suc (last_id tt) in (h, tt\<lparr>live := live tt @ [(h, cb)], last_id := h\<rparr>))"

definition clear_timer :: "nat \<Rightarrow> 'cb timer_table \<Rightarrow> 'cb timer_table" where
  "clear_timer h tt = tt\<lparr>live := filter (\<lambda>e. fst e \<noteq> h) (live tt)\<rparr>"

text \<open>A callback is a closure; \<open>set_callback\<close> stores the new values of its captured variables.\<close>

definition set_callback :: "nat \<Rightarrow> 'cb \<Rightarrow> 'cb timer_table \<Rightarrow> 'cb timer_table" where
  "set_callback h cb tt = tt\<lparr>live := map (\<lambda>e. if fst e = h then (h, cb) else e) (live tt)\<rparr>"

text \<open>
  The two interval callbacks of the page: the arrow function of \<^verbatim>\<open>startAnimation\<close> with its
  variable \<^verbatim>\<open>rotation\<close>, and the one of \<^verbatim>\<open>startLoading\<close> with its variable \<^verbatim>\<open>progress\<close>.
\<close>

datatype callback = RotateBox nat | AdvanceProgress number

definition setInterval :: "callback \<Rightarrow> callback timer_table \<Rightarrow> nat \<times> callback timer_table" where
  "setInterval cb tt = add_timer cb tt"

definition clearInterval :: "nat \<Rightarrow> callback timer_table \<Rightarrow> callback timer_table" where
  "clearInterval h tt = clear_timer h tt"

section \<open>AnimationController\<close>

record animation_controller =
  box :: element
  animationInterval :: "nat option"
  isAnimating :: bool

definition new_AnimationController :: "element \<Rightarrow> animation_controller" where
  "new_AnimationController boxElement =
     \<lparr>box = boxElement, animationInterval = None, isAnimating = False\<rparr>"

definition startAnimation ::
  "animation_controller \<Rightarrow> callback timer_table \<Rightarrow> animation_controller \<times> callback timer_table" where
  "startAnimation this tt =
     (if isAnimating this then (this, tt)
      else let this1 = this\<lparr>isAnimating := True\<rparr>;
               this2 = this1\<lparr>box := classList_add ''animate'' (box this1)\<rparr>;
               (h, tt') = setInterval (RotateBox 0) tt
           in (this2\<lparr>animationInterval := Some h\<rparr>, tt'))"

text \<open>The test \<^verbatim>\<open>if (this.animationInterval)\<close> holds for a handle other than 0.\<close>

definition stopAnimation ::
  "animation_controller \<Rightarrow> callback timer_table \<Rightarrow> animation_controller \<times> callback timer_table" where
  "stopAnimation this tt =
     (let this1 = this\<lparr>isAnimating := False\<rparr>;
          this2 = this1\<lparr>box := classList_remove ''animate'' (box this1)\<rparr>
      in case animationInterval this2 of
           Some h \<Rightarrow>
             if h \<noteq> 0 then (this2\<lparr>animationInterval := None\<rparr>, clearInterval h tt)
             else (this2, tt)
         | None \<Rightarrow> (this2, tt))"

definition resetAnimation ::
  "animation_controller \<Rightarrow> callback timer_table \<Rightarrow> animation_controller \<times> callback timer_table" where
  "resetAnimation this tt =
     (let (this1, tt') = stopAnimation this tt;
          this2 = this1\<lparr>box := set_style ''transform'' ''rotate(0deg)'' (box this1)\<rparr>;
          this3 = this2\<lparr>box := set_style ''background''
                                  ''linear-gradient(45deg, #667eea, #764ba2)'' (box this2)\<rparr>
      in (this3, tt'))"

text \<open>One firing of the interval \<open>h\<close> of \<^verbatim>\<open>startAnimation\<close>, whose variable holds \<open>rotation\<close>.\<close>

definition rotate_tick ::
  "nat \<Rightarrow> nat \<Rightarrow> animation_controller \<Rightarrow> callback timer_table
     \<Rightarrow> animation_controller \<times> callback timer_table" where
  "rotate_tick h rotation this tt =
     (let rotation' = (rotation + 2) mod 360
      in (this\<lparr>box := set_style ''transform'' (''rotate('' @ decimal rotation' @ ''deg)'') (box this)\<rparr>,
          set_callback h (RotateBox rotation') tt))"

section \<open>FlipCardManager\<close>

record flip_card_manager =
  card :: element
  isFlipped :: bool

definition new_FlipCardManager :: "element \<Rightarrow> flip_card_manager" where
  "new_FlipCardManager cardElement = \<lparr>card = cardElement, isFlipped = False\<rparr>"

definition flip :: "flip_card_manager \<Rightarrow> flip_card_manager" where
  "flip this =
     (let this1 = this\<lparr>isFlipped := \<not> isFlipped this\<rparr>
      in this1\<lparr>card := toggleClass (card this1) ''flipped'' (Boolean (isFlipped this1))\<rparr>)"

definition reset :: "flip_card_manager \<Rightarrow> flip_card_manager" where
  "reset this =
     (let this1 = this\<lparr>isFlipped := False\<rparr>
      in this1\<lparr>card := classList_remove ''flipped'' (card this1)\<rparr>)"

datatype flip_call = Flip | Reset

fun flip_calls :: "flip_call list \<Rightarrow> flip_card_manager \<Rightarrow> flip_card_manager" where
  "flip_calls [] this = this"
| "flip_calls (Flip # cs) this = flip_calls cs (flip this)"
| "flip_calls (Reset # cs) this = flip_calls cs (reset this)"

section \<open>LoadingManager\<close>

record loading_manager =
  loadingBar :: element
  statusElement :: element
  loadingInterval :: "nat option"
  isLoading :: bool

definition new_LoadingManager :: "element \<Rightarrow> element \<Rightarrow> loading_manager" where
  "new_LoadingManager bar status =
     \<lparr>loadingBar = bar, statusElement = status, loadingInterval = None, isLoading = False\<rparr>"

definition startLoading ::
  "loading_manager \<Rightarrow> callback timer_table \<Rightarrow> loading_manager \<times> callback timer_table" where
  "startLoading this tt =
     (if isLoading this then (this, tt)
      else let this1 = this\<lparr>isLoading := True\<rparr>;
               this2 = this1\<lparr>loadingBar := classList_add ''loading'' (loadingBar this1)\<rparr>;
               this3 = this2\<lparr>statusElement := (statusElement this2)\<lparr>textContent := ''Loading...''\<rparr>\<rparr>;
               (h, tt') = setInterval (AdvanceProgress (Fin 0)) tt
           in (this3\<lparr>loadingInterval := Some h\<rparr>, tt'))"

definition stopLoading ::
  "loading_manager \<Rightarrow> callback timer_table \<Rightarrow> loading_manager \<times> callback timer_table" where
  "stopLoading this tt =
     (let this1 = this\<lparr>isLoading := False\<rparr>;
          this2 = this1\<lparr>loadingBar := classList_remove ''loading'' (loadingBar this1)\<rparr>;
          this3 = this2\<lparr>statusElement := (statusElement this2)\<lparr>textContent := ''Stopped''\<rparr>\<rparr>
      in case loadingInterval this3 of
           Some h \<Rightarrow>
             if h \<noteq> 0 then (this3\<lparr>loadingInterval := None\<rparr>, clearInterval h tt)
             else (this3, tt)
         | None \<Rightarrow> (this3, tt))"

definition finishLoading ::
  "loading_manager \<Rightarrow> callback timer_table \<Rightarrow> loading_manager \<times> callback timer_table" where
  "finishLoading this tt =
     (let this1 = this\<lparr>isLoading := False\<rparr>;
          this2 = this1\<lparr>loadingBar := classList_remove ''loading'' (loadingBar this1)\<rparr>;
          this3 = this2\<lparr>statusElement := (statusElement this2)\<lparr>textContent := ''Complete!''\<rparr>\<rparr>
      in case loadingInterval this3 of
           Some h \<Rightarrow>
             if h \<noteq> 0 then (this3\<lparr>loadingInterval := None\<rparr>, clearInterval h tt)
             else (this3, tt)
         | None \<Rightarrow> (this3, tt))"

text \<open>The comparison \<^verbatim>\<open>>=\<close> on Numbers.\<close>

definition ge :: "number \<Rightarrow> number \<Rightarrow> bool" where
  "ge x y = (if x = NaN \<or> y = NaN then False else \<not> lt x y)"

text \<open>
  One firing of the interval \<open>h\<close> of \<^verbatim>\<open>startLoading\<close>, whose variable holds \<open>progress\<close>;
  \<open>r\<close> is the value \<^verbatim>\<open>Math.random()\<close> returns.
\<close>

definition progress_tick ::
  "nat \<Rightarrow> number \<Rightarrow> number \<Rightarrow> loading_manager \<Rightarrow> callback timer_table
     \<Rightarrow> loading_manager \<times> callback timer_table" where
  "progress_tick h progress r this tt =
     (let progress' = add progress (mul r (Fin 10));
          tt' = set_callback h (AdvanceProgress progress') tt
      in if ge progress' (Fin 100) then finishLoading this tt' else (this, tt'))"

section \<open>The page: controllers, buttons and timer events\<close>

record page =
  animatedBox :: animation_controller
  loadingManager :: loading_manager
  timers :: "callback timer_table"

text \<open>
  The state the \<^verbatim>\<open>DOMContentLoaded\<close> listener builds, from the elements of the document
  and the last timer handle the window has given out.
\<close>

definition DOMContentLoaded :: "element \<Rightarrow> element \<Rightarrow> element \<Rightarrow> nat \<Rightarrow> page" where
  "DOMContentLoaded boxElement bar status n =
     \<lparr>animatedBox = new_AnimationController boxElement,
      loadingManager = new_LoadingManager bar status,
      timers = \<lparr>live = [], last_id = n\<rparr>\<rparr>"

text \<open>
  The events of the page: a click on one of the five buttons, or the firing of the timer
  with a given handle, together with the value \<^verbatim>\<open>Math.random()\<close> returns if the callback
  asks for one. A handle that is not live fires nothing.
\<close>

datatype event =
    ClickStartAnimation
  | ClickStopAnimation
  | ClickResetAnimation
  | ClickStartLoading
  | ClickStopLoading
  | TimerFires nat number

definition on_animation ::
  "(animation_controller \<Rightarrow> callback timer_table \<Rightarrow> animation_controller \<times> callback timer_table)
     \<Rightarrow> page \<Rightarrow> page" where
  "on_animation method p =
     (let (c, tt) = method (animatedBox p) (timers p) in p\<lparr>animatedBox := c, timers := tt\<rparr>)"

definition on_loading ::
  "(loading_manager \<Rightarrow> callback timer_table \<Rightarrow> loading_manager \<times> callback timer_table)
     \<Rightarrow> page \<Rightarrow> page" where
  "on_loading method p =
     (let (m, tt) = method (loadingManager p) (timers p) in p\<lparr>loadingManager := m, timers := tt\<rparr>)"

fun step :: "event \<Rightarrow> page \<Rightarrow> page" where
  "step ClickStartAnimation p = on_animation startAnimation p"
| "step ClickStopAnimation p = on_animation stopAnimation p"
| "step ClickResetAnimation p = on_animation resetAnimation p"
| "step ClickStartLoading p = on_loading startLoading p"
| "step ClickStopLoading p = on_loading stopLoading p"
| "step (TimerFires h r) p =
     (case map_of (live (timers p)) h of
        None \<Rightarrow> p
      | Some (RotateBox rotation) \<Rightarrow> on_animation (rotate_tick h rotation) p
      | Some (AdvanceProgress progress) \<Rightarrow> on_loading (progress_tick h progress r) p)"

fun run :: "event list \<Rightarrow> page \<Rightarrow> page" where
  "run [] p = p"
| "run (e # es) p = run es (step e p)"

text \<open>The live timers whose callback is the one of each controller.\<close>

definition is_rotate :: "callback \<Rightarrow> bool" where
  "is_rotate cb = (case cb of RotateBox _ \<Rightarrow> True | _ \<Rightarrow> False)"

definition animation_timers :: "callback timer_table \<Rightarrow> nat list" where
  "animation_timers tt = map fst (filter (\<lambda>e. is_rotate (snd e)) (live tt))"

definition loading_timers :: "callback timer_table \<Rightarrow> nat list" where
  "loading_timers tt = map fst (filter (\<lambda>e. \<not> is_rotate (snd e)) (live tt))"

definition handle_list :: "nat option \<Rightarrow> nat list" where
  "handle_list h = (case h of None \<Rightarrow> [] | Some k \<Rightarrow> [k])"

section \<open>debounce\<close>

text \<open>
  The closure \<^verbatim>\<open>debounce(func, wait)\<close> returns, with the part of the world it acts on: its
  variable \<^verbatim>\<open>timeout\<close> (\<open>None\<close> is \<^verbatim>\<open>undefined\<close>), the pending timeouts with their due time
  and the arguments their callback \<^verbatim>\<open>later\<close> has captured, the clock in milliseconds, and
  the calls of \<^verbatim>\<open>func\<close> made so far, each with its time and its arguments.
\<close>

record 'a debounced =
  wait :: nat
  timeout :: "nat option"
  timeouts :: "(nat \<times> 'a) timer_table"
  clock :: nat
  invocations :: "(nat \<times> 'a) list"


text \<open>
  \<^verbatim>\<open>setTimeout\<close> of a page takes its delay as a signed 32-bit integer: the number is reduced
  modulo \<open>2^32\<close>, and a result from \<open>2^31\<close> on, which stands for a negative delay, counts
  as 0.
\<close>

definition timeout_ms :: "nat \<Rightarrow> nat" where
  "timeout_ms delay = (let w = delay mod 2 ^ 32 in if w < 2 ^ 31 then w else 0)"

definition setTimeout :: "'a \<Rightarrow> nat \<Rightarrow> nat \<Rightarrow> (nat \<times> 'a) timer_table \<Rightarrow> nat \<times> (nat \<times> 'a) timer_table" where
  "setTimeout args delay now tt = add_timer (now + timeout_ms delay, args) tt"

definition clearTimeout :: "nat option \<Rightarrow> (nat \<times> 'a) timer_table \<Rightarrow> (nat \<times> 'a) timer_table" where
  "clearTimeout h tt = (case h of None \<Rightarrow> tt | Some k \<Rightarrow> clear_timer k tt)"

definition executedFunction :: "'a \<Rightarrow> 'a debounced \<Rightarrow> 'a debounced" where
  "executedFunction args this =
     (let tt1 = clearTimeout (timeout this) (timeouts this);
          (h, tt2) = setTimeout args (wait this) (clock this) tt1
      in this\<lparr>timeout := Some h, timeouts := tt2\<rparr>)"

text \<open>The callback \<^verbatim>\<open>later\<close> of a call with arguments \<open>args\<close>.\<close>

definition later :: "'a \<Rightarrow> 'a debounced \<Rightarrow> 'a debounced" where
  "later args this =
     (let this1 = this\<lparr>timeouts := clearTimeout (timeout this) (timeouts this)\<rparr>
      in this1\<lparr>invocations := invocations this1 @ [(clock this1, args)]\<rparr>)"

text \<open>
  The event loop after \<open>d\<close> more milliseconds: every timeout that is due fires, earliest
  first; a timeout that fires is no longer pending, and one that an earlier callback has
  cleared does not fire.
\<close>

fun fire_all :: "(nat \<times> nat \<times> 'a) list \<Rightarrow> 'a debounced \<Rightarrow> 'a debounced" where
  "fire_all [] this = this"
| "fire_all ((h, due, args) # es) this =
     fire_all es
       (if h \<in> set (map fst (live (timeouts this)))
        then later args (this\<lparr>timeouts := clear_timer h (timeouts this)\<rparr>)
        else this)"

definition advance :: "nat \<Rightarrow> 'a debounced \<Rightarrow> 'a debounced" where
  "advance d this =
     (let this1 = this\<lparr>clock := clock this + d\<rparr>
      in fire_all (sort_key (\<lambda>e. fst (snd e))
                     (filter (\<lambda>e. fst (snd e) \<le> clock this1) (live (timeouts this1))))
           this1)"

text \<open>A burst: one call, then further calls, each \<open>gap\<close> milliseconds after the one before.\<close>

fun burst :: "(nat \<times> 'a) list \<Rightarrow> 'a debounced \<Rightarrow> 'a debounced" where
  "burst [] this = this"
| "burst ((gap, args) # cs) this = burst cs (executedFunction args (advance gap this))"

section \<open>Predicates and sample inputs of the properties\<close>

text \<open>The flag \<^verbatim>\<open>isFlipped\<close> agrees with the presence of the class \<^verbatim>\<open>flipped\<close> on the card.\<close>

definition flag_matches_class :: "flip_card_manager \<Rightarrow> bool" where
  "flag_matches_class this = (isFlipped this = (''flipped'' \<in> set (classList (card this))))"

definition plain_card :: element where
  "plain_card = \<lparr>classList = [''card''], style = Map.empty, textContent = ''''\<rparr>"



text \<open>
  Well-formed timer tables: handles are positive, at most the last one given out, and
  pairwise different.
\<close>

definition wf_timers :: "'cb timer_table \<Rightarrow> bool" where
  "wf_timers tt =
     ((\<forall>h \<in> set (map fst (live tt)). 0 < h \<and> h \<le> last_id tt) \<and> distinct (map fst (live tt)))"

text \<open>
  A controller holds its timers: the live timers with its callback are exactly the handle
  in its field, none when the field is \<^verbatim>\<open>null\<close>, and it is active exactly when it holds one.
\<close>

definition animation_holds :: "animation_controller \<Rightarrow> callback timer_table \<Rightarrow> bool" where
  "animation_holds this tt =
     (animation_timers tt = handle_list (animationInterval this) \<and>
      isAnimating this = (animationInterval this \<noteq> None))"

definition loading_holds :: "loading_manager \<Rightarrow> callback timer_table \<Rightarrow> bool" where
  "loading_holds this tt =
     (loading_timers tt = handle_list (loadingInterval this) \<and>
      isLoading this = (loadingInterval this \<noteq> None))"

definition page_inv :: "page \<Rightarrow> bool" where
  "page_inv p =
     (wf_timers (timers p) \<and> animation_holds (animatedBox p) (timers p) \<and>
      loading_holds (loadingManager p) (timers p))"

text \<open>
  \<^verbatim>\<open>stop\<close> followed by restoring the canonical default transform and background, in the
  words of the specification.
\<close>

definition canonical_defaults :: "element \<Rightarrow> element" where
  "canonical_defaults e =
     e\<lparr>style := (style e)(''transform'' \<mapsto> ''rotate(0deg)'',
                           ''background'' \<mapsto> ''linear-gradient(45deg, #667eea, #764ba2)'')\<rparr>"

definition stop_then_defaults ::
  "animation_controller \<Rightarrow> callback timer_table \<Rightarrow> animation_controller \<times> callback timer_table" where
  "stop_then_defaults this tt =
     (case stopAnimation this tt of
        (this', tt') \<Rightarrow> (this'\<lparr>box := canonical_defaults (box this')\<rparr>, tt'))"

text \<open>Doing an operation of a controller again changes nothing.\<close>

definition idempotent_on :: "('c \<Rightarrow> 't \<Rightarrow> 'c \<times> 't) \<Rightarrow> 'c \<Rightarrow> 't \<Rightarrow> bool" where
  "idempotent_on method this tt =
     (case method this tt of (this', tt') \<Rightarrow> method this' tt' = (this', tt'))"

definition sample_events :: "event list" where
  "sample_events =
     [ClickStartAnimation, ClickStartLoading, TimerFires 1 (Fin 0), ClickStartAnimation,
      TimerFires 2 (Fin 0), TimerFires 1 (Fin 0)]"

text \<open>
  The value of \<^verbatim>\<open>progress\<close> after ticks whose draws of \<^verbatim>\<open>Math.random()\<close> are \<open>rs\<close>, and whether
  it has reached 100.
\<close>

definition progress_after :: "number list \<Rightarrow> number" where
  "progress_after rs = foldl (\<lambda>progress r. add progress (mul r (Fin 10))) (Fin 0) rs"

definition crossed :: "number list \<Rightarrow> bool" where
  "crossed rs = ge (progress_after rs) (Fin 100)"

text \<open>The states of the specification, read off the flag and the status text.\<close>

datatype loading_state = Idle | Loading | Complete | Stopped

definition loading_state_of :: "loading_manager \<Rightarrow> loading_state" where
  "loading_state_of this =
     (if isLoading this then Loading
      else if textContent (statusElement this) = ''Complete!'' then Complete
      else if textContent (statusElement this) = ''Stopped'' then Stopped
      else Idle)"

text \<open>The manager of page \<open>p\<close> is loading on the timer \<open>h\<close>, whose variable holds \<open>progress\<close>.\<close>

definition loading_at :: "page \<Rightarrow> nat \<Rightarrow> number \<Rightarrow> bool" where
  "loading_at p h progress =
     (page_inv p \<and> isLoading (loadingManager p) \<and> loadingInterval (loadingManager p) = Some h \<and>
      map_of (live (timers p)) h = Some (AdvanceProgress progress) \<and>
      textContent (statusElement (loadingManager p)) = ''Loading...'')"

text \<open>Twenty draws of one half: the progress goes up by 5 a tick and reaches 100 at the last.\<close>

definition twenty_halves :: "number list" where
  "twenty_halves = replicate 20 (Fin (1 / 2))"


text \<open>A value that \<^verbatim>\<open>Math.random()\<close> can return: a binary64 value in \<open>[0, 1)\<close>.\<close>

definition is_random_draw :: "number \<Rightarrow> bool" where
  "is_random_draw x = (case x of Fin q \<Rightarrow> 0 \<le> q \<and> q < 1 \<and> binary64 q = Fin q | _ \<Rightarrow> False)"

text \<open>The pattern \<^verbatim>\<open>^#[0-9A-F]{6}$\<close>.\<close>

definition is_hex_color :: "string \<Rightarrow> bool" where
  "is_hex_color s = (length s = 7 \<and> s ! 0 = CHR ''#'' \<and> (\<forall>c \<in> set (tl s). c \<in> set letters))"

text \<open>The symbol that a draw selects.\<close>

definition hex_digit_of :: "number \<Rightarrow> char" where
  "hex_digit_of x = letters ! nat \<lfloor>16 * val x\<rfloor>"

definition eighths :: "nat \<Rightarrow> number" where
  "eighths k = Fin (of_nat k / 8)"

text \<open>The standard recursive definition of the factorial.\<close>

fun factorial_spec :: "nat \<Rightarrow> nat" where
  "factorial_spec 0 = 1"
| "factorial_spec (Suc n) = Suc n * factorial_spec n"

section \<open>Rounding to binary64 is exact on representable values\<close>

lemma ilog2_lower:
  assumes "0 < q"
  shows "2 powi (ilog2 q) \<le> q"
proof (cases "1 \<le> q")
  case True
  define n where "n = nat \<lfloor>q\<rfloor>"
  have n: "0 < n" using True by (simp add: n_def)
  have "2 ^ (floorlog 2 n - 1) \<le> n"
    using floorlog_bounds [of n 2] n by simp
  moreover have "1 \<le> floorlog 2 n"
    using n by (simp add: floorlog_def)
  ultimately have "(2::rat) powi (int (floorlog 2 n) - 1) \<le> of_nat n"
  proof -
    assume le: "2 ^ (floorlog 2 n - 1) \<le> n" and w: "1 \<le> floorlog 2 n"
    have "(of_nat (2 ^ (floorlog 2 n - 1)) :: rat) \<le> of_nat n"
      using le by (simp only: of_nat_le_iff)
    moreover have "nat (int (floorlog 2 n) - 1) = floorlog 2 n - 1"
      by simp
    ultimately show ?thesis
      using w by (simp add: power_int_def)
  qed
  also have "of_nat n \<le> q"
    using True by (simp add: n_def)
  finally show ?thesis using True by (simp add: ilog2_def n_def)
next
  case False
  define n where "n = nat (\<lceil>1 / q\<rceil> - 1)"
  have "1 < 1 / q" using False assms by simp
  then have c: "2 \<le> \<lceil>1 / q\<rceil>" by linarith 
  then have n: "0 < n" by (simp add: n_def)
  have "n < 2 ^ floorlog 2 n"
    using floorlog_bounds [of n 2] n by simp
  then have "int n < 2 ^ floorlog 2 n"
    by (metis of_nat_less_iff of_nat_numeral of_nat_power)
  moreover have "0 \<le> \<lceil>1 / q\<rceil> - 1"
    using c by linarith
  then have "int n = \<lceil>1 / q\<rceil> - 1"
    unfolding n_def by (rule nat_0_le)
  ultimately have "\<lceil>1 / q\<rceil> \<le> 2 ^ floorlog 2 n"
    by linarith
  then have "1 / q \<le> 2 ^ floorlog 2 n"
    by (simp add: ceiling_le_iff)
  then have "1 / 2 ^ floorlog 2 n \<le> q"
    using assms by (simp add: field_simps)
  then show ?thesis using False
    by (simp add: ilog2_def n_def power_int_minus_divide)
qed

lemma ilog2_upper:
  assumes "0 < q"
  shows "q < 2 powi (ilog2 q + 1)"
proof (cases "1 \<le> q")
  case True
  define n where "n = nat \<lfloor>q\<rfloor>"
  have n: "0 < n" using True by (simp add: n_def)
  have "n < 2 ^ floorlog 2 n"
    using floorlog_bounds [of n 2] n by simp
  then have "int n + 1 \<le> 2 ^ floorlog 2 n"
    by (metis of_nat_less_iff of_nat_numeral of_nat_power zless_imp_add1_zle)
  then have "\<lfloor>q\<rfloor> + 1 \<le> 2 ^ floorlog 2 n"
    using True by (simp add: n_def)
  then have "(of_int (\<lfloor>q\<rfloor> + 1) :: rat) \<le> of_int (2 ^ floorlog 2 n)"
    by (simp only: of_int_le_iff)
  moreover have "q < of_int (\<lfloor>q\<rfloor> + 1)" by linarith
  ultimately have "q < 2 ^ floorlog 2 n" by simp
  then show ?thesis using True by (simp add: ilog2_def n_def)
next
  case False
  define n where "n = nat (\<lceil>1 / q\<rceil> - 1)"
  have "1 < 1 / q" using False assms by simp
  then have c: "2 \<le> \<lceil>1 / q\<rceil>" by linarith 
  then have n: "0 < n" by (simp add: n_def)
  have w: "1 \<le> floorlog 2 n" using n by (simp add: floorlog_def)
  have "2 ^ (floorlog 2 n - 1) \<le> n"
    using floorlog_bounds [of n 2] n by simp
  then have "(2::int) ^ (floorlog 2 n - 1) \<le> int n"
    by (metis of_nat_le_iff of_nat_numeral of_nat_power)
  moreover have "0 \<le> \<lceil>1 / q\<rceil> - 1"
    using c by linarith
  then have "int n = \<lceil>1 / q\<rceil> - 1"
    unfolding n_def by (rule nat_0_le)
  ultimately have "(2::int) ^ (floorlog 2 n - 1) < \<lceil>1 / q\<rceil>"
    by linarith
  then have "2 ^ (floorlog 2 n - 1) < 1 / q"
    by (simp add: less_ceiling_iff)
  then have "q < 1 / 2 ^ (floorlog 2 n - 1)"
    using assms by (simp add: field_simps)
  also have "\<dots> = 2 powi (- int (floorlog 2 n) + 1)"
    using w by (simp add: power_int_def nat_diff_distrib' field_simps)
  finally show ?thesis using False by (simp add: ilog2_def n_def)
qed

lemma ilog2_less:
  assumes "0 < q" and "q < 2 powi k"
  shows "ilog2 q < k"
proof (rule ccontr)
  assume "\<not> ilog2 q < k"
  then have "(2::rat) powi k \<le> 2 powi (ilog2 q)"
    by (simp add: power_int_increasing)
  with ilog2_lower [OF assms(1)] assms(2) show False by simp
qed

lemma round_half_even_of_int [simp]: "round_half_even (of_int n) = n"
  by (simp add: round_half_even_def)

lemma binary64_exact:
  assumes m: "m \<noteq> 0" "\<bar>m\<bar> < 2 ^ 53"
    and e: "- 1074 \<le> e"
    and q: "q = of_int m * 2 powi e" "\<bar>q\<bar> < 2 ^ 1024"
  shows "binary64 q = Fin q"
proof -
  define a where "a = \<bar>q\<bar>"
  define u where "u = max (ilog2 a - 52) (- 1074)"
  have a: "a = of_int \<bar>m\<bar> * 2 powi e"
    by (simp add: a_def q abs_mult)
  have a_pos: "0 < a"
    using m by (simp add: a zero_less_power_int)
  have "of_int \<bar>m\<bar> < (2::rat) ^ 53"
    using m(2) by (metis of_int_less_iff of_int_numeral of_int_power)
  then have "a < 2 ^ 53 * 2 powi e"
    by (simp add: a zero_less_power_int)
  also have "\<dots> = 2 powi (e + 53)"
    by (simp add: power_int_add)
  finally have "ilog2 a < e + 53"
    by (rule ilog2_less [OF a_pos])
  then have u_le: "u \<le> e"
    using e by (simp add: u_def)
  have "a / 2 powi u = of_int \<bar>m\<bar> * 2 powi (e - u)"
    by (simp add: a power_int_diff)
  also have "\<dots> = of_int (\<bar>m\<bar> * 2 ^ nat (e - u))"
    using u_le by (simp add: power_int_def)
  finally have "of_int (round_half_even (a / 2 powi u)) * 2 powi u = a / 2 powi u * 2 powi u"
    by (simp only: round_half_even_of_int)
  then have r: "of_int (round_half_even (a / 2 powi u)) * 2 powi u = a"
    by simp
  have q0: "q \<noteq> 0" using a_pos by (auto simp: a_def)
  have big: "\<not> 2 ^ 1024 \<le> a" using q(2) by (simp only: a_def not_le)
  have a0: "a \<noteq> 0" using a_pos by simp
  have sgn: "(if q < 0 then - a else a) = q" by (simp add: a_def)
  have "binary64 q = Fin (if q < 0 then - a else a)"
    unfolding binary64_def Let_def a_def [symmetric] u_def [symmetric] r
    using q0 big a0 by (simp only: if_False)
  then show ?thesis by (simp only: sgn)
qed

lemma binary64_of_int:
  assumes "\<bar>k\<bar> \<le> 2 ^ 53"
  shows "binary64 (of_int k) = Fin (of_int k)"
proof (cases "\<bar>k\<bar> < 2 ^ 53")
  case True
  show ?thesis
  proof (cases "k = 0")
    case True
    then show ?thesis by (simp add: binary64_def)
  next
    case False
    have "\<bar>of_int k :: rat\<bar> < 2 ^ 53"
      using True by (metis of_int_abs of_int_less_iff of_int_numeral of_int_power)
    also have "\<dots> < 2 ^ 1024" by simp
    finally show ?thesis
      using binary64_exact [of k 0 "of_int k"] False True by simp
  qed
next
  case False
  with assms have k: "\<bar>k\<bar> = 2 ^ 52 * 2" by simp
  then consider "k = 2 ^ 52 * 2" | "k = - (2 ^ 52) * 2" by linarith
  then show ?thesis
  proof cases
    case 1
    show ?thesis
      using binary64_exact [of "2 ^ 52" 1 "of_int k"] by (simp add: 1)
  next
    case 2
    show ?thesis
      using binary64_exact [of "- (2 ^ 52)" 1 "of_int k"] by (simp add: 2)
  qed
qed

section \<open>Properties of performCalculations\<close>

lemma factorial_closure_negative:
  "lt number (Fin 0) \<Longrightarrow> factorial_closure number = Some Undefined"
  by (simp add: factorial_closure_def)

text \<open>
  Claim C9. For every negative finite number, \<^verbatim>\<open>performCalculations\<close> returns normally (it does
  not throw), and the field \<^verbatim>\<open>squareRoot\<close> of the result is the string \<^verbatim>\<open>"NaN"\<close>: the square
  root of a negative number is \<^verbatim>\<open>NaN\<close>, which \<^verbatim>\<open>toFixed(2)\<close> prints as such.
\<close>

theorem performCalculations_negative_squareRoot:
  "q < 0 \<Longrightarrow>
     \<exists>r. performCalculations (Number (Fin q)) = Some (Inr r) \<and> squareRoot r = ''NaN''"
  by (simp add: performCalculations_def factorial_closure_negative lt_def val_def
      Math_sqrt_def toFixed_def)

theorem performCalculations_negative_squareRoot_witness:
  "(- 4 :: rat) < 0 \<and>
     (\<exists>r. performCalculations (Number (Fin (- 4))) = Some (Inr r) \<and> squareRoot r = ''NaN'')"
  using performCalculations_negative_squareRoot [of "- 4"] by simp

section \<open>Properties of FlipCardManager\<close>

lemma flip_matches: "flag_matches_class (flip this)"
  by (simp add: flag_matches_class_def flip_def toggleClass_def classList_add_def
      classList_remove_def Let_def)

lemma reset_matches: "flag_matches_class (reset this)"
  by (simp add: flag_matches_class_def reset_def classList_remove_def Let_def)

lemma flip_calls_matches:
  "flag_matches_class this \<Longrightarrow> flag_matches_class (flip_calls cs this)"
proof (induction cs arbitrary: this)
  case Nil
  then show ?case by simp
next
  case (Cons c cs)
  show ?case
    by (cases c) (simp_all add: Cons.IH flip_matches reset_matches)
qed

lemma flip_flip_flag: "isFlipped (flip (flip this)) = isFlipped this"
  by (simp add: flip_def Let_def)

lemma flip_flip_classes:
  "flag_matches_class this \<Longrightarrow>
     set (classList (card (flip (flip this)))) = set (classList (card this))"
  by (auto simp: flag_matches_class_def flip_def toggleClass_def classList_add_def
      classList_remove_def Let_def)

lemma flip_flip_rest:
  "style (card (flip (flip this))) = style (card this) \<and>
   textContent (card (flip (flip this))) = textContent (card this)"
  by (simp add: flip_def toggleClass_def classList_add_def classList_remove_def Let_def)

text \<open>
  Claim C10. For every sequence of \<^verbatim>\<open>flip()\<close> and \<^verbatim>\<open>reset()\<close> calls on a manager whose card
  lacks the class \<^verbatim>\<open>flipped\<close> at construction, \<^verbatim>\<open>isFlipped\<close> holds after the calls exactly when
  the card carries the class, and two further \<^verbatim>\<open>flip()\<close> calls give back the flag and the
  classes of the card.
\<close>

theorem FlipCardManager_flag_is_class:
  assumes "''flipped'' \<notin> set (classList cardElement)"
  shows "flag_matches_class (flip_calls cs (new_FlipCardManager cardElement)) \<and>
         isFlipped (flip (flip (flip_calls cs (new_FlipCardManager cardElement)))) =
           isFlipped (flip_calls cs (new_FlipCardManager cardElement)) \<and>
         set (classList (card (flip (flip (flip_calls cs (new_FlipCardManager cardElement)))))) =
           set (classList (card (flip_calls cs (new_FlipCardManager cardElement))))"
proof -
  have "flag_matches_class (new_FlipCardManager cardElement)"
    using assms by (simp add: flag_matches_class_def new_FlipCardManager_def)
  then have "flag_matches_class (flip_calls cs (new_FlipCardManager cardElement))"
    by (rule flip_calls_matches)
  then show ?thesis
    by (simp add: flip_flip_flag flip_flip_classes)
qed

theorem FlipCardManager_flag_is_class_witness:
  "''flipped'' \<notin> set (classList plain_card) \<and>
   flag_matches_class (flip_calls [Flip, Flip, Flip, Reset, Flip] (new_FlipCardManager plain_card)) \<and>
   isFlipped (flip_calls [Flip, Flip, Flip, Reset, Flip] (new_FlipCardManager plain_card)) \<and>
   classList (card (flip_calls [Flip, Flip, Flip, Reset, Flip] (new_FlipCardManager plain_card))) =
     [''card'', ''flipped''] \<and>
   isFlipped (flip (flip (flip_calls [Flip, Flip, Flip, Reset, Flip] (new_FlipCardManager plain_card))))"
  using FlipCardManager_flag_is_class [of plain_card "[Flip, Flip, Flip, Reset, Flip]"]
  by (simp add: plain_card_def new_FlipCardManager_def flip_def reset_def toggleClass_def
      classList_add_def classList_remove_def)

section \<open>Properties of formatText\<close>









text \<open>A string with a code unit outside ASCII, here \<^verbatim>\<open>caf\<close> and U+00E9, goes to the tables of the platform.\<close>

lemma formatText_beyond_ascii:
  "formatText unicode_upper unicode_lower [99, 97, 102, 233] (String ''upper'') =
     unicode_upper [99, 97, 102, 233]"
  by (simp add: formatText_def toUpperCase_def is_ascii_def)




section \<open>Properties of the timer table\<close>

lemma add_timer_handle: "fst (add_timer cb tt) = Suc (last_id tt)"
  by (simp add: add_timer_def Let_def)

lemma live_add_timer:
  "live (snd (add_timer cb tt)) = live tt @ [(Suc (last_id tt), cb)]"
  by (simp add: add_timer_def Let_def)

lemma wf_add_timer: "wf_timers tt \<Longrightarrow> wf_timers (snd (add_timer cb tt))"
  by (fastforce simp: wf_timers_def add_timer_def Let_def)

lemma wf_clear_timer: "wf_timers tt \<Longrightarrow> wf_timers (clear_timer h tt)"
  by (auto simp: wf_timers_def clear_timer_def distinct_map_filter)

lemma map_fst_set_callback [simp]:
  "map fst (live (set_callback h cb tt)) = map fst (live tt)"
  by (simp add: set_callback_def comp_def if_distrib [of fst] cong: if_cong)

lemma last_id_set_callback [simp]: "last_id (set_callback h cb tt) = last_id tt"
  by (simp add: set_callback_def)

lemma wf_set_callback: "wf_timers tt \<Longrightarrow> wf_timers (set_callback h cb tt)"
  by (simp add: wf_timers_def)

lemma animation_timers_add:
  "animation_timers (snd (add_timer cb tt)) =
     animation_timers tt @ (if is_rotate cb then [Suc (last_id tt)] else [])"
  by (simp add: animation_timers_def live_add_timer)

lemma loading_timers_add:
  "loading_timers (snd (add_timer cb tt)) =
     loading_timers tt @ (if is_rotate cb then [] else [Suc (last_id tt)])"
  by (simp add: loading_timers_def live_add_timer)

lemma animation_timers_clear:
  "animation_timers (clear_timer h tt) = filter (\<lambda>k. k \<noteq> h) (animation_timers tt)"
  by (simp add: animation_timers_def clear_timer_def filter_map comp_def conj_commute)

lemma loading_timers_clear:
  "loading_timers (clear_timer h tt) = filter (\<lambda>k. k \<noteq> h) (loading_timers tt)"
  by (simp add: loading_timers_def clear_timer_def filter_map comp_def conj_commute)

lemma timers_disjoint:
  assumes "wf_timers tt" and "h \<in> set (animation_timers tt)"
  shows "h \<notin> set (loading_timers tt)"
proof
  assume "h \<in> set (loading_timers tt)"
  then obtain cb where l: "(h, cb) \<in> set (live tt)" "\<not> is_rotate cb"
    by (auto simp: loading_timers_def)
  from assms(2) obtain cb' where a: "(h, cb') \<in> set (live tt)" "is_rotate cb'"
    by (auto simp: animation_timers_def)
  from assms(1) have "distinct (map fst (live tt))" by (simp add: wf_timers_def)
  then have "cb = cb'" using l(1) a(1) by (rule eq_key_imp_eq_value)
  with l(2) a(2) show False by simp
qed

lemma filter_set_callback:
  assumes "distinct (map fst xs)" and "map_of xs h = Some cb0" and "P cb = P cb0"
  shows "map fst (filter (\<lambda>e. P (snd e)) (map (\<lambda>e. if fst e = h then (h, cb) else e) xs)) =
         map fst (filter (\<lambda>e. P (snd e)) xs)"
  using assms
proof (induction xs)
  case Nil
  then show ?case by simp
next
  case (Cons x xs)
  show ?case
  proof (cases "fst x = h")
    case True
    with Cons.prems have "h \<notin> fst ` set xs" and "snd x = cb0" by auto
    then have "map (\<lambda>e. if fst e = h then (h, cb) else e) xs = xs"
      by (intro map_idI) force
    then show ?thesis using True \<open>snd x = cb0\<close> Cons.prems(3) by simp
  next
    case False
    with Cons.prems have "map_of xs h = Some cb0" and "distinct (map fst xs)"
      by (auto split: if_splits)
    from Cons.IH [OF this(2) this(1) Cons.prems(3)] False show ?thesis by simp
  qed
qed

lemma animation_timers_set_callback:
  "wf_timers tt \<Longrightarrow> map_of (live tt) h = Some cb0 \<Longrightarrow> is_rotate cb = is_rotate cb0 \<Longrightarrow>
     animation_timers (set_callback h cb tt) = animation_timers tt"
  unfolding animation_timers_def set_callback_def wf_timers_def
  by (simp add: filter_set_callback [where P = is_rotate])

lemma loading_timers_set_callback:
  "wf_timers tt \<Longrightarrow> map_of (live tt) h = Some cb0 \<Longrightarrow> is_rotate cb = is_rotate cb0 \<Longrightarrow>
     loading_timers (set_callback h cb tt) = loading_timers tt"
  unfolding loading_timers_def set_callback_def wf_timers_def
  by (simp add: filter_set_callback [where P = "\<lambda>c. \<not> is_rotate c"])

lemma animation_handle_positive:
  "wf_timers tt \<Longrightarrow> h \<in> set (animation_timers tt) \<Longrightarrow> 0 < h"
  by (auto simp: wf_timers_def animation_timers_def)

lemma loading_handle_positive:
  "wf_timers tt \<Longrightarrow> h \<in> set (loading_timers tt) \<Longrightarrow> 0 < h"
  by (auto simp: wf_timers_def loading_timers_def)

section \<open>The controllers keep the timer invariant\<close>

lemma animation_holds_idle:
  "animation_holds this tt \<Longrightarrow> \<not> isAnimating this \<Longrightarrow>
     animationInterval this = None \<and> animation_timers tt = []"
  by (simp add: animation_holds_def handle_list_def)

lemma loading_holds_idle:
  "loading_holds this tt \<Longrightarrow> \<not> isLoading this \<Longrightarrow>
     loadingInterval this = None \<and> loading_timers tt = []"
  by (simp add: loading_holds_def handle_list_def)

lemma startAnimation_inv:
  assumes "wf_timers tt" and "animation_holds this tt"
  shows "wf_timers (snd (startAnimation this tt)) \<and>
         animation_holds (fst (startAnimation this tt)) (snd (startAnimation this tt)) \<and>
         loading_timers (snd (startAnimation this tt)) = loading_timers tt"
proof (cases "isAnimating this")
  case True
  with assms show ?thesis by (simp add: startAnimation_def)
next
  case False
  with assms(2) have "animation_timers tt = []" by (simp add: animation_holds_idle)
  with False assms(1) show ?thesis
    by (simp add: startAnimation_def setInterval_def Let_def split_beta wf_add_timer
        animation_holds_def animation_timers_add loading_timers_add add_timer_handle
        handle_list_def is_rotate_def)
qed

lemma stopAnimation_inv:
  assumes "wf_timers tt" and "animation_holds this tt"
  shows "wf_timers (snd (stopAnimation this tt)) \<and>
         animation_holds (fst (stopAnimation this tt)) (snd (stopAnimation this tt)) \<and>
         loading_timers (snd (stopAnimation this tt)) = loading_timers tt \<and>
         animationInterval (fst (stopAnimation this tt)) = None \<and>
         \<not> isAnimating (fst (stopAnimation this tt)) \<and>
         animation_timers (snd (stopAnimation this tt)) = []"
proof (cases "animationInterval this")
  case None
  with assms show ?thesis
    by (simp add: stopAnimation_def Let_def animation_holds_def handle_list_def)
next
  case (Some h)
  with assms(2) have at: "animation_timers tt = [h]"
    by (simp add: animation_holds_def handle_list_def)
  then have mem: "h \<in> set (animation_timers tt)" by simp
  have pos: "h \<noteq> 0"
    using animation_handle_positive [OF assms(1) mem] by simp
  have "h \<notin> set (loading_timers tt)"
    using assms(1) mem by (rule timers_disjoint)
  then have "filter (\<lambda>k. k \<noteq> h) (loading_timers tt) = loading_timers tt"
    by (auto simp: filter_id_conv)
  with Some pos at assms(1) show ?thesis
    by (simp add: stopAnimation_def Let_def clearInterval_def wf_clear_timer
        animation_holds_def animation_timers_clear loading_timers_clear handle_list_def)
qed

lemma resetAnimation_eq:
  "resetAnimation this tt =
     ((fst (stopAnimation this tt))
        \<lparr>box := set_style ''background'' ''linear-gradient(45deg, #667eea, #764ba2)''
                 (set_style ''transform'' ''rotate(0deg)'' (box (fst (stopAnimation this tt))))\<rparr>,
      snd (stopAnimation this tt))"
  by (simp add: resetAnimation_def Let_def split_beta)

lemma resetAnimation_inv:
  assumes "wf_timers tt" and "animation_holds this tt"
  shows "wf_timers (snd (resetAnimation this tt)) \<and>
         animation_holds (fst (resetAnimation this tt)) (snd (resetAnimation this tt)) \<and>
         loading_timers (snd (resetAnimation this tt)) = loading_timers tt \<and>
         animationInterval (fst (resetAnimation this tt)) = None \<and>
         \<not> isAnimating (fst (resetAnimation this tt)) \<and>
         animation_timers (snd (resetAnimation this tt)) = []"
  using stopAnimation_inv [OF assms]
  by (simp add: resetAnimation_eq animation_holds_def handle_list_def)

lemma rotate_tick_inv:
  assumes "wf_timers tt" and "animation_holds this tt"
    and "map_of (live tt) h = Some (RotateBox rotation)"
  shows "wf_timers (snd (rotate_tick h rotation this tt)) \<and>
         animation_holds (fst (rotate_tick h rotation this tt)) (snd (rotate_tick h rotation this tt)) \<and>
         loading_timers (snd (rotate_tick h rotation this tt)) = loading_timers tt"
  using assms
  by (simp add: rotate_tick_def Let_def wf_set_callback animation_holds_def
      animation_timers_set_callback [OF assms(1) assms(3)]
      loading_timers_set_callback [OF assms(1) assms(3)] is_rotate_def)

lemma startLoading_inv:
  assumes "wf_timers tt" and "loading_holds this tt"
  shows "wf_timers (snd (startLoading this tt)) \<and>
         loading_holds (fst (startLoading this tt)) (snd (startLoading this tt)) \<and>
         animation_timers (snd (startLoading this tt)) = animation_timers tt"
proof (cases "isLoading this")
  case True
  with assms show ?thesis by (simp add: startLoading_def)
next
  case False
  with assms(2) have "loading_timers tt = []" by (simp add: loading_holds_idle)
  with False assms(1) show ?thesis
    by (simp add: startLoading_def setInterval_def Let_def split_beta wf_add_timer
        loading_holds_def animation_timers_add loading_timers_add add_timer_handle
        handle_list_def is_rotate_def)
qed

lemma timers_disjoint':
  "wf_timers tt \<Longrightarrow> h \<in> set (loading_timers tt) \<Longrightarrow> h \<notin> set (animation_timers tt)"
  using timers_disjoint by blast

lemma stopLoading_inv:
  assumes "wf_timers tt" and "loading_holds this tt"
  shows "wf_timers (snd (stopLoading this tt)) \<and>
         loading_holds (fst (stopLoading this tt)) (snd (stopLoading this tt)) \<and>
         animation_timers (snd (stopLoading this tt)) = animation_timers tt \<and>
         loadingInterval (fst (stopLoading this tt)) = None \<and>
         \<not> isLoading (fst (stopLoading this tt)) \<and>
         loading_timers (snd (stopLoading this tt)) = []"
proof (cases "loadingInterval this")
  case None
  with assms show ?thesis
    by (simp add: stopLoading_def Let_def loading_holds_def handle_list_def)
next
  case (Some h)
  with assms(2) have lt: "loading_timers tt = [h]"
    by (simp add: loading_holds_def handle_list_def)
  then have mem: "h \<in> set (loading_timers tt)" by simp
  have pos: "h \<noteq> 0"
    using loading_handle_positive [OF assms(1) mem] by simp
  have "h \<notin> set (animation_timers tt)"
    using assms(1) mem by (rule timers_disjoint')
  then have "filter (\<lambda>k. k \<noteq> h) (animation_timers tt) = animation_timers tt"
    by (auto simp: filter_id_conv)
  with Some pos lt assms(1) show ?thesis
    by (simp add: stopLoading_def Let_def clearInterval_def wf_clear_timer
        loading_holds_def animation_timers_clear loading_timers_clear handle_list_def)
qed

lemma finishLoading_inv:
  assumes "wf_timers tt" and "loading_holds this tt"
  shows "wf_timers (snd (finishLoading this tt)) \<and>
         loading_holds (fst (finishLoading this tt)) (snd (finishLoading this tt)) \<and>
         animation_timers (snd (finishLoading this tt)) = animation_timers tt \<and>
         loadingInterval (fst (finishLoading this tt)) = None \<and>
         \<not> isLoading (fst (finishLoading this tt)) \<and>
         loading_timers (snd (finishLoading this tt)) = []"
proof (cases "loadingInterval this")
  case None
  with assms show ?thesis
    by (simp add: finishLoading_def Let_def loading_holds_def handle_list_def)
next
  case (Some h)
  with assms(2) have lt: "loading_timers tt = [h]"
    by (simp add: loading_holds_def handle_list_def)
  then have mem: "h \<in> set (loading_timers tt)" by simp
  have pos: "h \<noteq> 0"
    using loading_handle_positive [OF assms(1) mem] by simp
  have "h \<notin> set (animation_timers tt)"
    using assms(1) mem by (rule timers_disjoint')
  then have "filter (\<lambda>k. k \<noteq> h) (animation_timers tt) = animation_timers tt"
    by (auto simp: filter_id_conv)
  with Some pos lt assms(1) show ?thesis
    by (simp add: finishLoading_def Let_def clearInterval_def wf_clear_timer
        loading_holds_def animation_timers_clear loading_timers_clear handle_list_def)
qed

lemma progress_tick_inv:
  assumes "wf_timers tt" and "loading_holds this tt"
    and "map_of (live tt) h = Some (AdvanceProgress progress)"
  shows "wf_timers (snd (progress_tick h progress r this tt)) \<and>
         loading_holds (fst (progress_tick h progress r this tt)) (snd (progress_tick h progress r this tt)) \<and>
         animation_timers (snd (progress_tick h progress r this tt)) = animation_timers tt"
proof -
  define tt' where "tt' = set_callback h (AdvanceProgress (add progress (mul r (Fin 10)))) tt"
  have wf: "wf_timers tt'"
    using assms(1) by (simp add: tt'_def wf_set_callback)
  have l: "loading_timers tt' = loading_timers tt"
    unfolding tt'_def by (rule loading_timers_set_callback [OF assms(1) assms(3)]) (simp add: is_rotate_def)
  have a: "animation_timers tt' = animation_timers tt"
    unfolding tt'_def by (rule animation_timers_set_callback [OF assms(1) assms(3)]) (simp add: is_rotate_def)
  have h: "loading_holds this tt'"
    using assms(2) l by (simp add: loading_holds_def)
  show ?thesis
    using finishLoading_inv [OF wf h] wf h a
    by (simp add: progress_tick_def Let_def flip: tt'_def)
qed

lemma page_inv_init: "page_inv (DOMContentLoaded boxElement bar status n)"
  by (simp add: page_inv_def DOMContentLoaded_def wf_timers_def animation_holds_def
      loading_holds_def new_AnimationController_def new_LoadingManager_def animation_timers_def
      loading_timers_def handle_list_def)

lemma on_animation_inv:
  assumes "page_inv p"
    and "wf_timers (snd (method (animatedBox p) (timers p))) \<and>
         animation_holds (fst (method (animatedBox p) (timers p))) (snd (method (animatedBox p) (timers p))) \<and>
         loading_timers (snd (method (animatedBox p) (timers p))) = loading_timers (timers p)"
  shows "page_inv (on_animation method p)"
  using assms by (simp add: page_inv_def on_animation_def split_beta loading_holds_def)

lemma on_loading_inv:
  assumes "page_inv p"
    and "wf_timers (snd (method (loadingManager p) (timers p))) \<and>
         loading_holds (fst (method (loadingManager p) (timers p))) (snd (method (loadingManager p) (timers p))) \<and>
         animation_timers (snd (method (loadingManager p) (timers p))) = animation_timers (timers p)"
  shows "page_inv (on_loading method p)"
  using assms by (simp add: page_inv_def on_loading_def split_beta animation_holds_def)

lemma page_inv_step:
  assumes "page_inv p"
  shows "page_inv (step e p)"
proof -
  from assms have wf: "wf_timers (timers p)"
    and a: "animation_holds (animatedBox p) (timers p)"
    and l: "loading_holds (loadingManager p) (timers p)"
    by (simp_all add: page_inv_def)
  show ?thesis
  proof (cases e)
    case ClickStartAnimation
    then show ?thesis
      using on_animation_inv [OF assms, of startAnimation] startAnimation_inv [OF wf a] by simp
  next
    case ClickStopAnimation
    then show ?thesis
      using on_animation_inv [OF assms, of stopAnimation] stopAnimation_inv [OF wf a] by simp
  next
    case ClickResetAnimation
    then show ?thesis
      using on_animation_inv [OF assms, of resetAnimation] resetAnimation_inv [OF wf a] by simp
  next
    case ClickStartLoading
    then show ?thesis
      using on_loading_inv [OF assms, of startLoading] startLoading_inv [OF wf l] by simp
  next
    case ClickStopLoading
    then show ?thesis
      using on_loading_inv [OF assms, of stopLoading] stopLoading_inv [OF wf l] by simp
  next
    case (TimerFires h r)
    show ?thesis
    proof (cases "map_of (live (timers p)) h")
      case None
      with TimerFires assms show ?thesis by simp
    next
      case (Some cb)
      show ?thesis
      proof (cases cb)
        case (RotateBox rotation)
        with Some have m: "map_of (live (timers p)) h = Some (RotateBox rotation)" by simp
        show ?thesis
          using on_animation_inv [OF assms, of "rotate_tick h rotation"]
            rotate_tick_inv [OF wf a m] TimerFires m by simp
      next
        case (AdvanceProgress progress)
        with Some have m: "map_of (live (timers p)) h = Some (AdvanceProgress progress)" by simp
        show ?thesis
          using on_loading_inv [OF assms, of "progress_tick h progress r"]
            progress_tick_inv [OF wf l m] TimerFires m by simp
      qed
    qed
  qed
qed

lemma page_inv_run: "page_inv p \<Longrightarrow> page_inv (run es p)"
  by (induction es arbitrary: p) (simp_all add: page_inv_step)

lemma page_inv_reachable: "page_inv (run es (DOMContentLoaded boxElement bar status n))"
  by (rule page_inv_run) (rule page_inv_init)

section \<open>Properties of the controllers\<close>

lemma stopAnimation_idempotent: "idempotent_on stopAnimation this tt"
  by (cases "animationInterval this")
    (simp_all add: idempotent_on_def stopAnimation_def Let_def classList_remove_def)

lemma resetAnimation_idempotent: "idempotent_on resetAnimation this tt"
  by (cases "animationInterval this")
    (simp_all add: idempotent_on_def resetAnimation_def stopAnimation_def Let_def
      classList_remove_def set_style_def)

lemma stopLoading_idempotent: "idempotent_on stopLoading this tt"
  by (cases "loadingInterval this")
    (simp_all add: idempotent_on_def stopLoading_def Let_def classList_remove_def)

lemma finishLoading_idempotent: "idempotent_on finishLoading this tt"
  by (cases "loadingInterval this")
    (simp_all add: idempotent_on_def finishLoading_def Let_def classList_remove_def)

lemma length_handle_list: "length (handle_list h) \<le> Suc 0"
  by (simp add: handle_list_def split: option.split)

text \<open>
  Claim C3. After every sequence of clicks and timer firings on the page, each of the two
  controllers has at most one live timer, the one whose handle it holds; a start while the
  controller is active changes nothing; and each stopping operation (\<^verbatim>\<open>stopAnimation\<close>,
  \<^verbatim>\<open>resetAnimation\<close>, \<^verbatim>\<open>stopLoading\<close>, \<^verbatim>\<open>finishLoading\<close>) leaves the handle cleared and no live
  timer of the controller, and doing it again changes nothing.
\<close>

theorem controllers_hold_one_timer:
  "let p = run es (DOMContentLoaded boxElement bar status n);
       this = animatedBox p; m = loadingManager p; tt = timers p
   in animation_timers tt = handle_list (animationInterval this) \<and>
      length (animation_timers tt) \<le> 1 \<and>
      loading_timers tt = handle_list (loadingInterval m) \<and>
      length (loading_timers tt) \<le> 1 \<and>
      (isAnimating this \<longrightarrow> startAnimation this tt = (this, tt)) \<and>
      (isLoading m \<longrightarrow> startLoading m tt = (m, tt)) \<and>
      animationInterval (fst (stopAnimation this tt)) = None \<and>
      animation_timers (snd (stopAnimation this tt)) = [] \<and>
      idempotent_on stopAnimation this tt \<and>
      animationInterval (fst (resetAnimation this tt)) = None \<and>
      animation_timers (snd (resetAnimation this tt)) = [] \<and>
      idempotent_on resetAnimation this tt \<and>
      loadingInterval (fst (stopLoading m tt)) = None \<and>
      loading_timers (snd (stopLoading m tt)) = [] \<and>
      idempotent_on stopLoading m tt \<and>
      loadingInterval (fst (finishLoading m tt)) = None \<and>
      loading_timers (snd (finishLoading m tt)) = [] \<and>
      idempotent_on finishLoading m tt"
proof -
  define p where "p = run es (DOMContentLoaded boxElement bar status n)"
  have "page_inv p"
    unfolding p_def by (rule page_inv_reachable)
  then have wf: "wf_timers (timers p)"
    and a: "animation_holds (animatedBox p) (timers p)"
    and l: "loading_holds (loadingManager p) (timers p)"
    by (simp_all add: page_inv_def)
  have at: "animation_timers (timers p) = handle_list (animationInterval (animatedBox p))"
    using a by (simp add: animation_holds_def)
  have lt: "loading_timers (timers p) = handle_list (loadingInterval (loadingManager p))"
    using l by (simp add: loading_holds_def)
  have "isAnimating (animatedBox p) \<longrightarrow>
          startAnimation (animatedBox p) (timers p) = (animatedBox p, timers p)"
    by (simp add: startAnimation_def)
  moreover have "isLoading (loadingManager p) \<longrightarrow>
          startLoading (loadingManager p) (timers p) = (loadingManager p, timers p)"
    by (simp add: startLoading_def)
  ultimately show ?thesis
    using at lt stopAnimation_inv [OF wf a] resetAnimation_inv [OF wf a]
      stopLoading_inv [OF wf l] finishLoading_inv [OF wf l]
    by (simp add: Let_def length_handle_list stopAnimation_idempotent
        resetAnimation_idempotent stopLoading_idempotent finishLoading_idempotent
        flip: p_def)
qed

lemma sample_run:
  "animatedBox (run sample_events (DOMContentLoaded plain_card plain_card plain_card 0)) =
     \<lparr>box = \<lparr>classList = [''card'', ''animate''],
              style = [''transform'' \<mapsto> ''rotate(4deg)''], textContent = ''''\<rparr>,
      animationInterval = Some 1, isAnimating = True\<rparr>"
  "loadingManager (run sample_events (DOMContentLoaded plain_card plain_card plain_card 0)) =
     \<lparr>loadingBar = \<lparr>classList = [''card'', ''loading''], style = Map.empty, textContent = ''''\<rparr>,
      statusElement = \<lparr>classList = [''card''], style = Map.empty, textContent = ''Loading...''\<rparr>,
      loadingInterval = Some 2, isLoading = True\<rparr>"
  "timers (run sample_events (DOMContentLoaded plain_card plain_card plain_card 0)) =
     \<lparr>live = [(1, RotateBox 4), (2, AdvanceProgress (Fin 0))], last_id = 2\<rparr>"
  by (simp_all add: sample_events_def DOMContentLoaded_def plain_card_def
      new_AnimationController_def new_LoadingManager_def on_animation_def on_loading_def
      startAnimation_def startLoading_def rotate_tick_def progress_tick_def setInterval_def
      add_timer_def set_callback_def classList_add_def set_style_def Let_def
      add_def mul_def ge_def lt_def val_def is_inf_def is_zero_def sign_neg_def
      decimal.simps digit_char_def)

theorem controllers_hold_one_timer_witness:
  "isAnimating (animatedBox (run sample_events (DOMContentLoaded plain_card plain_card plain_card 0))) \<and>
   startAnimation (animatedBox (run sample_events (DOMContentLoaded plain_card plain_card plain_card 0)))
       (timers (run sample_events (DOMContentLoaded plain_card plain_card plain_card 0))) =
     (animatedBox (run sample_events (DOMContentLoaded plain_card plain_card plain_card 0)),
      timers (run sample_events (DOMContentLoaded plain_card plain_card plain_card 0))) \<and>
   isLoading (loadingManager (run sample_events (DOMContentLoaded plain_card plain_card plain_card 0))) \<and>
   startLoading (loadingManager (run sample_events (DOMContentLoaded plain_card plain_card plain_card 0)))
       (timers (run sample_events (DOMContentLoaded plain_card plain_card plain_card 0))) =
     (loadingManager (run sample_events (DOMContentLoaded plain_card plain_card plain_card 0)),
      timers (run sample_events (DOMContentLoaded plain_card plain_card plain_card 0))) \<and>
   animation_timers (timers (run sample_events (DOMContentLoaded plain_card plain_card plain_card 0))) = [1] \<and>
   loading_timers (timers (run sample_events (DOMContentLoaded plain_card plain_card plain_card 0))) = [2]"
  using controllers_hold_one_timer [of sample_events plain_card plain_card plain_card 0]
  by (simp add: Let_def sample_run handle_list_def)

lemma run_append: "run (es @ es') p = run es' (run es p)"
  by (induction es arbitrary: p) simp_all

lemma resetAnimation_refines: "resetAnimation this tt = stop_then_defaults this tt"
  by (simp add: resetAnimation_def stop_then_defaults_def canonical_defaults_def set_style_def
      Let_def split_beta)

lemma stopAnimation_fields:
  "isAnimating (fst (stopAnimation this tt)) = False \<and>
   classList (box (fst (stopAnimation this tt))) = removeAll ''animate'' (classList (box this)) \<and>
   style (box (fst (stopAnimation this tt))) = style (box this) \<and>
   textContent (box (fst (stopAnimation this tt))) = textContent (box this)"
  by (cases "animationInterval this")
    (simp_all add: stopAnimation_def Let_def classList_remove_def)

text \<open>
  Claim C4. In every state of an AnimationController, \<^verbatim>\<open>resetAnimation()\<close> gives the state that
  \<^verbatim>\<open>stopAnimation()\<close> followed by setting the element's transform and background to the
  canonical defaults gives: the same flag, handle, timers, classes and styles. A reset
  after a start leaves no live timer of the controller and the default styles.
\<close>

theorem resetAnimation_is_stop_then_defaults:
  "resetAnimation this tt = stop_then_defaults this tt \<and>
   isAnimating (fst (resetAnimation this tt)) = False \<and>
   animationInterval (fst (resetAnimation this tt)) = animationInterval (fst (stopAnimation this tt)) \<and>
   snd (resetAnimation this tt) = snd (stopAnimation this tt) \<and>
   classList (box (fst (resetAnimation this tt))) = removeAll ''animate'' (classList (box this)) \<and>
   style (box (fst (resetAnimation this tt))) =
     (style (box this))(''transform'' \<mapsto> ''rotate(0deg)'',
                         ''background'' \<mapsto> ''linear-gradient(45deg, #667eea, #764ba2)'') \<and>
   (let p = run (es @ [ClickStartAnimation, ClickResetAnimation])
              (DOMContentLoaded boxElement bar status n)
    in animation_timers (timers p) = [] \<and> animationInterval (animatedBox p) = None \<and>
       \<not> isAnimating (animatedBox p) \<and>
       style (box (animatedBox p)) ''transform'' = Some ''rotate(0deg)'' \<and>
       style (box (animatedBox p)) ''background'' =
         Some ''linear-gradient(45deg, #667eea, #764ba2)'')"
proof -
  define p where "p = run (es @ [ClickStartAnimation]) (DOMContentLoaded boxElement bar status n)"
  have "page_inv p"
    unfolding p_def by (rule page_inv_reachable)
  then have wf: "wf_timers (timers p)" and a: "animation_holds (animatedBox p) (timers p)"
    by (simp_all add: page_inv_def)
  have run: "run (es @ [ClickStartAnimation, ClickResetAnimation])
               (DOMContentLoaded boxElement bar status n) = step ClickResetAnimation p"
    by (simp add: p_def run_append)
  have after: "let q = step ClickResetAnimation p
    in animation_timers (timers q) = [] \<and> animationInterval (animatedBox q) = None \<and>
       \<not> isAnimating (animatedBox q) \<and>
       style (box (animatedBox q)) ''transform'' = Some ''rotate(0deg)'' \<and>
       style (box (animatedBox q)) ''background'' =
         Some ''linear-gradient(45deg, #667eea, #764ba2)''"
    using resetAnimation_inv [OF wf a]
    by (simp add: on_animation_def split_beta Let_def)
      (simp add: resetAnimation_eq set_style_def)
  have fields:
    "isAnimating (fst (resetAnimation this tt)) = False \<and>
     animationInterval (fst (resetAnimation this tt)) = animationInterval (fst (stopAnimation this tt)) \<and>
     snd (resetAnimation this tt) = snd (stopAnimation this tt) \<and>
     classList (box (fst (resetAnimation this tt))) = removeAll ''animate'' (classList (box this)) \<and>
     style (box (fst (resetAnimation this tt))) =
       (style (box this))(''transform'' \<mapsto> ''rotate(0deg)'',
                           ''background'' \<mapsto> ''linear-gradient(45deg, #667eea, #764ba2)'')"
    using stopAnimation_fields [of this tt]
    by (simp add: resetAnimation_eq set_style_def)
  show ?thesis
    unfolding run using after fields resetAnimation_refines [of this tt]
    by (simp only: simp_thms)
qed

section \<open>Properties of LoadingManager\<close>

lemma map_of_add_timer:
  assumes "wf_timers tt"
  shows "map_of (live (snd (add_timer cb tt))) (Suc (last_id tt)) = Some cb"
proof -
  have "Suc (last_id tt) \<notin> fst ` set (live tt)"
    using assms by (fastforce simp: wf_timers_def)
  then have "map_of (live tt) (Suc (last_id tt)) = None"
    by (simp add: map_of_eq_None_iff)
  then show ?thesis
    by (simp add: live_add_timer map_add_def)
qed

lemma map_of_map_callback:
  "map_of xs h = Some cb0 \<Longrightarrow>
     map_of (map (\<lambda>e. if fst e = h then (h, cb) else e) xs) h = Some cb"
  by (induction xs) (auto split: if_splits)

lemma map_of_set_callback:
  "map_of (live tt) h = Some cb0 \<Longrightarrow> map_of (live (set_callback h cb tt)) h = Some cb"
  by (simp add: set_callback_def map_of_map_callback)

lemma startLoading_loading_at:
  assumes "page_inv p" and "\<not> isLoading (loadingManager p)"
  shows "loading_at (step ClickStartLoading p) (Suc (last_id (timers p))) (Fin 0)"
proof -
  from assms(1) have wf: "wf_timers (timers p)" by (simp add: page_inv_def)
  have "page_inv (step ClickStartLoading p)"
    using assms(1) by (rule page_inv_step)
  then show ?thesis
    using assms(2) map_of_add_timer [OF wf, of "AdvanceProgress (Fin 0)"]
    by (simp add: loading_at_def on_loading_def startLoading_def setInterval_def Let_def
        split_beta add_timer_handle)
qed

lemma progress_tick_fields:
  "\<not> ge (add progress (mul r (Fin 10))) (Fin 100) \<Longrightarrow>
     progress_tick h progress r this tt =
       (this, set_callback h (AdvanceProgress (add progress (mul r (Fin 10)))) tt)"
  "ge (add progress (mul r (Fin 10))) (Fin 100) \<Longrightarrow>
     progress_tick h progress r this tt =
       finishLoading this (set_callback h (AdvanceProgress (add progress (mul r (Fin 10)))) tt)"
  by (simp_all add: progress_tick_def Let_def)

lemma tick_keeps_loading:
  assumes "loading_at p h progress"
    and "\<not> ge (add progress (mul r (Fin 10))) (Fin 100)"
  shows "loading_at (step (TimerFires h r) p) h (add progress (mul r (Fin 10)))"
proof -
  from assms(1) have inv: "page_inv p"
    and m: "map_of (live (timers p)) h = Some (AdvanceProgress progress)"
    by (simp_all add: loading_at_def)
  have "page_inv (step (TimerFires h r) p)"
    using inv by (rule page_inv_step)
  then show ?thesis
    using assms m map_of_set_callback [OF m]
    by (simp add: loading_at_def on_loading_def progress_tick_fields split_beta)
qed

lemma finishLoading_status:
  "textContent (statusElement (fst (finishLoading this tt))) = ''Complete!''"
  by (cases "loadingInterval this") (simp_all add: finishLoading_def Let_def)

lemma stopLoading_status:
  "textContent (statusElement (fst (stopLoading this tt))) = ''Stopped''"
  by (cases "loadingInterval this") (simp_all add: stopLoading_def Let_def)

lemma tick_completes:
  assumes "loading_at p h progress"
    and "ge (add progress (mul r (Fin 10))) (Fin 100)"
  shows "loading_state_of (loadingManager (step (TimerFires h r) p)) = Complete \<and>
         loadingInterval (loadingManager (step (TimerFires h r) p)) = None \<and>
         loading_timers (timers (step (TimerFires h r) p)) = [] \<and>
         textContent (statusElement (loadingManager (step (TimerFires h r) p))) = ''Complete!''"
proof -
  from assms(1) have inv: "page_inv p"
    and m: "map_of (live (timers p)) h = Some (AdvanceProgress progress)"
    by (simp_all add: loading_at_def)
  define tt' where
    "tt' = set_callback h (AdvanceProgress (add progress (mul r (Fin 10)))) (timers p)"
  from inv have wf: "wf_timers (timers p)" and l: "loading_holds (loadingManager p) (timers p)"
    by (simp_all add: page_inv_def)
  have wf': "wf_timers tt'"
    using wf by (simp add: tt'_def wf_set_callback)
  have "loading_timers tt' = loading_timers (timers p)"
    unfolding tt'_def by (rule loading_timers_set_callback [OF wf m]) (simp add: is_rotate_def)
  with l have l': "loading_holds (loadingManager p) tt'"
    by (simp add: loading_holds_def)
  have fired: "step (TimerFires h r) p =
      p\<lparr>loadingManager := fst (finishLoading (loadingManager p) tt'),
        timers := snd (finishLoading (loadingManager p) tt')\<rparr>"
    using m assms(2) by (simp add: on_loading_def progress_tick_fields split_beta tt'_def)
  show ?thesis
    unfolding fired
    using finishLoading_inv [OF wf' l'] finishLoading_status [of "loadingManager p" tt']
    by (simp add: loading_state_of_def)
qed

lemma stop_while_loading:
  assumes "loading_at p h progress"
  shows "loading_state_of (loadingManager (step ClickStopLoading p)) = Stopped \<and>
         loadingInterval (loadingManager (step ClickStopLoading p)) = None \<and>
         loading_timers (timers (step ClickStopLoading p)) = [] \<and>
         textContent (statusElement (loadingManager (step ClickStopLoading p))) = ''Stopped''"
proof -
  from assms have "page_inv p" by (simp add: loading_at_def)
  then have wf: "wf_timers (timers p)" and l: "loading_holds (loadingManager p) (timers p)"
    by (simp_all add: page_inv_def)
  show ?thesis
    using stopLoading_inv [OF wf l] stopLoading_status [of "loadingManager p" "timers p"]
    by (simp add: on_loading_def split_beta loading_state_of_def)
qed

lemma loading_at_fields:
  assumes "loading_at p h progress"
  shows "loading_state_of (loadingManager p) = Loading \<and>
         loadingInterval (loadingManager p) = Some h \<and> loading_timers (timers p) = [h]"
  using assms
  by (simp add: loading_at_def loading_state_of_def page_inv_def loading_holds_def handle_list_def)

lemma ticks_keep_loading:
  assumes "loading_at p h progress"
    and "\<forall>k. 0 < k \<and> k \<le> length rs \<longrightarrow>
           \<not> ge (foldl (\<lambda>progress r. add progress (mul r (Fin 10))) progress (take k rs)) (Fin 100)"
  shows "loading_at (run (map (TimerFires h) rs) p) h
           (foldl (\<lambda>progress r. add progress (mul r (Fin 10))) progress rs)"
  using assms
proof (induction rs arbitrary: p progress)
  case Nil
  then show ?case by simp
next
  case (Cons r rs)
  from Cons.prems(2) [rule_format, of 1]
  have first: "\<not> ge (add progress (mul r (Fin 10))) (Fin 100)" by simp
  have rest: "\<forall>k. 0 < k \<and> k \<le> length rs \<longrightarrow>
      \<not> ge (foldl (\<lambda>progress r. add progress (mul r (Fin 10)))
              (add progress (mul r (Fin 10))) (take k rs)) (Fin 100)"
  proof (intro allI impI)
    fix k assume "0 < k \<and> k \<le> length rs"
    with Cons.prems(2) [rule_format, of "Suc k"]
    show "\<not> ge (foldl (\<lambda>progress r. add progress (mul r (Fin 10)))
              (add progress (mul r (Fin 10))) (take k rs)) (Fin 100)"
      by simp
  qed
  from Cons.IH [OF tick_keeps_loading [OF Cons.prems(1) first] rest]
  show ?case by simp
qed

lemma progress_after_snoc:
  "progress_after (rs @ [r]) = add (progress_after rs) (mul r (Fin 10))"
  by (simp add: progress_after_def)

text \<open>
  Claim C5. Start the LoadingManager in a state where it is not loading, and let its timer
  fire with the draws \<open>rs\<close>, none of the earlier ticks having brought the progress to 100. If
  the last tick brings it to 100 or beyond, the manager is Complete: not loading, handle
  cleared, no live timer, status text \<^verbatim>\<open>Complete!\<close>. Otherwise it is still Loading on that
  timer, and a click on stop makes it Stopped: not loading, handle cleared, no live timer,
  status text \<^verbatim>\<open>Stopped\<close>.
\<close>

theorem loading_completes_or_stops:
  assumes "\<not> isLoading (loadingManager (run es (DOMContentLoaded boxElement bar status n)))"
    and "\<forall>k < length rs. \<not> crossed (take k rs)"
  shows "let p0 = run es (DOMContentLoaded boxElement bar status n);
             h = Suc (last_id (timers p0));
             p = run (map (TimerFires h) rs) (step ClickStartLoading p0);
             q = step ClickStopLoading p
         in (crossed rs \<longrightarrow>
               loading_state_of (loadingManager p) = Complete \<and>
               loadingInterval (loadingManager p) = None \<and>
               loading_timers (timers p) = [] \<and>
               textContent (statusElement (loadingManager p)) = ''Complete!'') \<and>
            (\<not> crossed rs \<longrightarrow>
               loading_state_of (loadingManager p) = Loading \<and>
               loadingInterval (loadingManager p) = Some h \<and>
               loading_timers (timers p) = [h] \<and>
               loading_state_of (loadingManager q) = Stopped \<and>
               loadingInterval (loadingManager q) = None \<and>
               loading_timers (timers q) = [] \<and>
               textContent (statusElement (loadingManager q)) = ''Stopped'')"
proof -
  define p0 where "p0 = run es (DOMContentLoaded boxElement bar status n)"
  define h where "h = Suc (last_id (timers p0))"
  define p1 where "p1 = step ClickStartLoading p0"
  let ?f = "\<lambda>progress r. add progress (mul r (Fin 10))"
  have "page_inv p0"
    unfolding p0_def by (rule page_inv_reachable)
  then have start: "loading_at p1 h (Fin 0)"
    unfolding p1_def h_def using assms(1) by (intro startLoading_loading_at) (simp_all add: p0_def)
  have goal: "(crossed rs \<longrightarrow>
       loading_state_of (loadingManager (run (map (TimerFires h) rs) p1)) = Complete \<and>
       loadingInterval (loadingManager (run (map (TimerFires h) rs) p1)) = None \<and>
       loading_timers (timers (run (map (TimerFires h) rs) p1)) = [] \<and>
       textContent (statusElement (loadingManager (run (map (TimerFires h) rs) p1))) = ''Complete!'') \<and>
     (\<not> crossed rs \<longrightarrow> loading_at (run (map (TimerFires h) rs) p1) h (progress_after rs))"
  proof (cases rs rule: rev_cases)
    case Nil
    then show ?thesis
      using start by (simp add: crossed_def progress_after_def ge_def lt_def val_def)
  next
    case (snoc rs' r)
    have "\<forall>k. 0 < k \<and> k \<le> length rs' \<longrightarrow> \<not> ge (foldl ?f (Fin 0) (take k rs')) (Fin 100)"
    proof (intro allI impI)
      fix k assume "0 < k \<and> k \<le> length rs'"
      then have "k < length rs" and "take k rs = take k rs'"
        by (simp_all add: snoc)
      with assms(2) show "\<not> ge (foldl ?f (Fin 0) (take k rs')) (Fin 100)"
        by (auto simp: crossed_def progress_after_def)
    qed
    from ticks_keep_loading [OF start this]
    have before: "loading_at (run (map (TimerFires h) rs') p1) h (progress_after rs')"
      by (simp add: progress_after_def)
    have run: "run (map (TimerFires h) rs) p1 =
        step (TimerFires h r) (run (map (TimerFires h) rs') p1)"
      by (simp add: snoc run_append)
    show ?thesis
      unfolding run
      using tick_completes [OF before, of r] tick_keeps_loading [OF before, of r]
      by (simp add: crossed_def snoc progress_after_snoc)
  qed
  have "\<not> crossed rs \<longrightarrow> loading_at (run (map (TimerFires h) rs) p1) h (progress_after rs)"
    using goal by simp
  then have "\<not> crossed rs \<longrightarrow>
       loading_state_of (loadingManager (run (map (TimerFires h) rs) p1)) = Loading \<and>
       loadingInterval (loadingManager (run (map (TimerFires h) rs) p1)) = Some h \<and>
       loading_timers (timers (run (map (TimerFires h) rs) p1)) = [h] \<and>
       loading_state_of (loadingManager (step ClickStopLoading (run (map (TimerFires h) rs) p1))) = Stopped \<and>
       loadingInterval (loadingManager (step ClickStopLoading (run (map (TimerFires h) rs) p1))) = None \<and>
       loading_timers (timers (step ClickStopLoading (run (map (TimerFires h) rs) p1))) = [] \<and>
       textContent (statusElement (loadingManager (step ClickStopLoading (run (map (TimerFires h) rs) p1)))) = ''Stopped''"
    using loading_at_fields stop_while_loading by blast
  with goal show ?thesis
    unfolding Let_def p0_def [symmetric] h_def [symmetric] p1_def [symmetric] by blast
qed

lemma binary64_5: "binary64 5 = Fin 5"
  using binary64_of_int [of 5] by simp

lemma progress_after_halves:
  "k \<le> 20 \<Longrightarrow> progress_after (replicate k (Fin (1 / 2))) = Fin (of_nat (5 * k))"
proof (induction k)
  case 0
  then show ?case by (simp add: progress_after_def)
next
  case (Suc k)
  then have IH: "progress_after (replicate k (Fin (1 / 2))) = Fin (of_nat (5 * k))" by simp
  have half: "mul (Fin (1 / 2)) (Fin 10) = Fin 5"
    by (simp add: mul_def val_def is_inf_def is_zero_def binary64_5)
  have "\<bar>int (5 * k + 5)\<bar> \<le> 2 ^ 53"
    using Suc.prems by simp
  from binary64_of_int [OF this]
  have "binary64 (of_nat (5 * k) + 5) = Fin (of_nat (5 * k) + 5)"
    by simp
  then have "add (Fin (of_nat (5 * k))) (Fin 5) = Fin (of_nat (5 * Suc k))"
    by (simp add: add_def val_def is_inf_def add_nonneg_eq_0_iff algebra_simps)
  moreover have "replicate (Suc k) (Fin (1 / 2)) = replicate k (Fin (1 / 2)) @ [Fin (1 / 2)]"
    by (simp add: replicate_append_same)
  ultimately show ?case
    by (simp only: progress_after_snoc IH half)
qed

lemma crossed_halves: "k \<le> 20 \<Longrightarrow> crossed (replicate k (Fin (1 / 2))) = (k = 20)"
  by (auto simp: crossed_def progress_after_halves ge_def lt_def val_def)

theorem loading_completes_or_stops_witness:
  "\<not> isLoading (loadingManager (run [] (DOMContentLoaded plain_card plain_card plain_card 0))) \<and>
   \<not> crossed (take 19 twenty_halves) \<and> crossed twenty_halves \<and>
   loading_state_of (loadingManager (run (map (TimerFires (Suc 0)) twenty_halves)
     (step ClickStartLoading (DOMContentLoaded plain_card plain_card plain_card 0)))) = Complete \<and>
   loading_timers (timers (run (map (TimerFires (Suc 0)) twenty_halves)
     (step ClickStartLoading (DOMContentLoaded plain_card plain_card plain_card 0)))) = [] \<and>
   loading_state_of (loadingManager (run (map (TimerFires (Suc 0)) (take 19 twenty_halves))
     (step ClickStartLoading (DOMContentLoaded plain_card plain_card plain_card 0)))) = Loading \<and>
   loading_state_of (loadingManager (step ClickStopLoading
     (run (map (TimerFires (Suc 0)) (take 19 twenty_halves))
       (step ClickStartLoading (DOMContentLoaded plain_card plain_card plain_card 0))))) = Stopped"
proof -
  have idle: "\<not> isLoading (loadingManager (run [] (DOMContentLoaded plain_card plain_card plain_card 0)))"
    by (simp add: DOMContentLoaded_def new_LoadingManager_def)
  have id0: "last_id (timers (DOMContentLoaded plain_card plain_card plain_card 0)) = 0"
    by (simp add: DOMContentLoaded_def)
  have a: "\<forall>k < length twenty_halves. \<not> crossed (take k twenty_halves)"
    by (simp add: twenty_halves_def crossed_halves min_def)
  have b: "\<forall>k < length (take 19 twenty_halves). \<not> crossed (take k (take 19 twenty_halves))"
    by (simp add: twenty_halves_def crossed_halves min_def)
  have c: "crossed twenty_halves" "\<not> crossed (take 19 twenty_halves)"
    by (simp_all add: twenty_halves_def crossed_halves)
  show ?thesis
    using loading_completes_or_stops [OF idle a] loading_completes_or_stops [OF idle b] c idle
    by (simp add: Let_def id0)
qed

section \<open>Properties of debounce\<close>

lemma wait_executedFunction [simp]: "wait (executedFunction args this) = wait this"
  by (simp add: executedFunction_def Let_def split_beta)

lemma clock_executedFunction [simp]: "clock (executedFunction args this) = clock this"
  by (simp add: executedFunction_def Let_def split_beta)

lemma fire_all_fields [simp]:
  "wait (fire_all es this) = wait this \<and> clock (fire_all es this) = clock this"
  by (induction es this rule: fire_all.induct) (simp_all add: later_def Let_def)

lemma wait_advance [simp]: "wait (advance d this) = wait this"
  by (simp add: advance_def Let_def)

lemma clock_advance [simp]: "clock (advance d this) = clock this + d"
  by (simp add: advance_def Let_def)







lemma wait_burst [simp]: "wait (burst calls this) = wait this"
  by (induction calls arbitrary: this) auto





section \<open>Properties of getRandomColor\<close>

lemma binary64_scale:
  assumes rep: "binary64 q = Fin q" and pos: "0 < q" and small: "q * 2 ^ k < 2 ^ 1024"
  shows "binary64 (q * 2 ^ k) = Fin (q * 2 ^ k)"
proof -
  define u where "u = max (ilog2 q - 52) (- 1074)"
  define m where "m = round_half_even (q / 2 powi u)"
  have "binary64 q =
      (if (2::rat) ^ 1024 \<le> of_int m * 2 powi u then PosInf
       else if of_int m * (2::rat) powi u = 0 then Fin 0 else Fin (of_int m * 2 powi u))"
    using pos by (simp add: binary64_def Let_def u_def m_def)
  with rep pos have q: "q = of_int m * 2 powi u"
    by (auto split: if_splits)
  have two: "(0::rat) < 2 powi u" by simp
  from q pos two have m_pos: "0 < m"
    by (simp add: zero_less_mult_iff)
  have "q < 2 powi (ilog2 q + 1)"
    using pos by (rule ilog2_upper)
  also have "\<dots> \<le> 2 powi (u + 53)"
    by (intro power_int_increasing) (simp_all add: u_def)
  also have "\<dots> = 2 ^ 53 * 2 powi u"
    by (simp add: power_int_add)
  finally have "of_int m * 2 powi u < (2::rat) ^ 53 * 2 powi u"
    by (simp only: q [symmetric])
  then have "(of_int m :: rat) < 2 ^ 53"
    using two by simp
  then have "(of_int m :: rat) < of_int (2 ^ 53)" by simp
  then have m_small: "m < 2 ^ 53" by (simp only: of_int_less_iff)
  have e: "- 1074 \<le> u + int k" by (simp add: u_def)
  have eq: "q * 2 ^ k = of_int m * 2 powi (u + int k)"
    by (simp add: q power_int_add)
  have "\<bar>q * 2 ^ k\<bar> < 2 ^ 1024"
    using small pos by simp
  with binary64_exact [of m "u + int k" "q * 2 ^ k"] m_pos m_small e eq
  show ?thesis by simp
qed

lemma mul_16_exact:
  assumes "is_random_draw x"
  shows "mul x (Fin 16) = Fin (16 * val x)"
proof -
  from assms obtain q where x: "x = Fin q" and q: "0 \<le> q" "q < 1" "binary64 q = Fin q"
    by (auto simp: is_random_draw_def split: number.splits)
  show ?thesis
  proof (cases "q = 0")
    case True
    then show ?thesis
      by (simp add: x mul_def val_def is_inf_def is_zero_def sign_neg_def)
  next
    case False
    with q(1) have pos: "0 < q" by simp
    have "q * 2 ^ 4 < 2 ^ 1024"
      using q(2) by simp
    from binary64_scale [OF q(3) pos this] False
    show ?thesis
      by (simp add: x mul_def val_def is_inf_def is_zero_def mult.commute)
  qed
qed

lemma random_digit:
  assumes "is_random_draw x"
  shows "string_index letters (Math_floor (mul x (Fin 16))) = String [hex_digit_of x] \<and>
         hex_digit_of x \<in> set letters"
proof -
  from assms have range: "0 \<le> val x" "val x < 1"
    by (auto simp: is_random_draw_def val_def split: number.splits)
  then have "0 \<le> \<lfloor>16 * val x\<rfloor>" and "\<lfloor>16 * val x\<rfloor> < 16"
    by (simp_all add: floor_less_iff)
  then have "nat \<lfloor>16 * val x\<rfloor> < 16"
    by linarith
  moreover have "length letters = 16"
    by (simp add: letters_def)
  ultimately have idx: "nat \<lfloor>16 * val x\<rfloor> < length letters"
    by (simp only:)
  then have "letters ! nat \<lfloor>16 * val x\<rfloor> \<in> set letters"
    by (rule nth_mem)
  with idx \<open>0 \<le> \<lfloor>16 * val x\<rfloor>\<close> show ?thesis
    by (simp add: mul_16_exact [OF assms] Math_floor_def string_index_def hex_digit_of_def)
qed

lemma color_loop_digits:
  assumes "i \<le> 6" and "\<forall>k < 6 - i. is_random_draw (random (n + k))"
  shows "color_loop random n color i =
           (color @ map (\<lambda>k. hex_digit_of (random (n + k))) [0..<6 - i], n + (6 - i))"
  using assms
proof (induction "6 - i" arbitrary: i n color)
  case 0
  then show ?case by (simp add: color_loop.simps)
next
  case (Suc j)
  then have i: "i < 6" and j: "j = 6 - Suc i" by simp_all
  from Suc.prems(2) i have first: "is_random_draw (random n)"
    by (metis add.right_neutral zero_less_diff)
  have rest: "\<forall>k < 6 - Suc i. is_random_draw (random (Suc n + k))"
  proof (intro allI impI)
    fix k assume "k < 6 - Suc i"
    then have "Suc k < 6 - i" by simp
    with Suc.prems(2) show "is_random_draw (random (Suc n + k))" by fastforce
  qed
  have "color_loop random n color i =
      color_loop random (Suc n) (color @ [hex_digit_of (random n)]) (Suc i)"
    using i by (subst color_loop.simps) (simp add: random_digit [OF first] append_value_def)
  also have "\<dots> = ((color @ [hex_digit_of (random n)]) @
      map (\<lambda>k. hex_digit_of (random (Suc n + k))) [0..<6 - Suc i], Suc n + (6 - Suc i))"
    using i by (intro Suc.hyps(1) [OF j _ rest]) simp
  also have "map (\<lambda>k. hex_digit_of (random (Suc n + k))) [0..<6 - Suc i] =
      map (\<lambda>k. hex_digit_of (random (n + k))) (map Suc [0..<6 - Suc i])"
    by simp
  also have "map Suc [0..<6 - Suc i] = [Suc 0..<Suc (6 - Suc i)]"
    by (rule map_Suc_upt)
  also have "Suc (6 - Suc i) = 6 - i"
    using i by simp
  finally show ?case
    using i by (simp add: upt_conv_Cons [of 0])
qed

text \<open>
  Claim C8. Whatever values in \<open>[0, 1)\<close> the random source returns, \<^verbatim>\<open>getRandomColor()\<close> makes
  six draws and returns a string that matches \<^verbatim>\<open>^#[0-9A-F]{6}$\<close>: a \<^verbatim>\<open>#\<close> followed by six of the
  16 symbols, the \<open>k\<close>-th of them selected by the \<open>k\<close>-th draw alone.
\<close>

theorem getRandomColor_is_hex_color:
  assumes "\<forall>k < 6. is_random_draw (random (n + k))"
  shows "is_hex_color (fst (getRandomColor random n)) \<and>
         snd (getRandomColor random n) = n + 6 \<and>
         (\<forall>k < 6. fst (getRandomColor random n) ! Suc k = hex_digit_of (random (n + k)) \<and>
                   hex_digit_of (random (n + k)) \<in> set letters)"
proof -
  have loop: "getRandomColor random n =
      (''#'' @ map (\<lambda>k. hex_digit_of (random (n + k))) [0..<6], n + 6)"
    unfolding getRandomColor_def using color_loop_digits [of 0 random n "''#''"] assms by simp
  have digits: "\<forall>k < 6. hex_digit_of (random (n + k)) \<in> set letters"
    using assms random_digit by blast
  then have "\<forall>c \<in> set (map (\<lambda>k. hex_digit_of (random (n + k))) [0..<6]). c \<in> set letters"
    by auto
  then have "is_hex_color (fst (getRandomColor random n))"
    by (simp add: loop is_hex_color_def)
  moreover have "\<forall>k < 6. fst (getRandomColor random n) ! Suc k = hex_digit_of (random (n + k))"
    by (simp add: loop del: upt_Suc)
  ultimately show ?thesis
    using digits by (simp add: loop)
qed

lemma eighths_is_random_draw: "k < 8 \<Longrightarrow> is_random_draw (eighths k)"
proof (cases "k = 0")
  case True
  then show ?thesis by (simp add: eighths_def is_random_draw_def binary64_def)
next
  case False
  assume "k < 8"
  have "binary64 (of_nat k / 8) = Fin (of_nat k / 8)"
    using binary64_exact [of "int k" "- 3" "of_nat k / 8"] False \<open>k < 8\<close>
    by (simp add: power_int_minus field_simps)
  with \<open>k < 8\<close> show ?thesis
    by (simp add: eighths_def is_random_draw_def)
qed

theorem getRandomColor_is_hex_color_witness:
  "is_random_draw (eighths 0) \<and> is_random_draw (eighths 5) \<and>
   is_hex_color (fst (getRandomColor eighths 0)) \<and>
   snd (getRandomColor eighths 0) = 6 \<and>
   fst (getRandomColor eighths 0) ! 1 = CHR ''0'' \<and>
   fst (getRandomColor eighths 0) ! 6 = CHR ''A''"
proof -
  have draws: "\<forall>k < 6. is_random_draw (eighths (0 + k))"
    by (simp add: eighths_is_random_draw)
  have "hex_digit_of (eighths 0) = CHR ''0''" "hex_digit_of (eighths 5) = CHR ''A''"
    by (simp_all add: hex_digit_of_def eighths_def val_def letters_def)
  moreover have "Suc 0 = 1" "Suc 5 = 6" by simp_all
  ultimately show ?thesis
    using getRandomColor_is_hex_color [OF draws]
      getRandomColor_is_hex_color [OF draws, THEN conjunct2, THEN conjunct2, rule_format, of 0]
      getRandomColor_is_hex_color [OF draws, THEN conjunct2, THEN conjunct2, rule_format, of 5]
    by (simp add: eighths_is_random_draw)
qed

section \<open>The factorial of performCalculations\<close>

lemma factorial_spec_fact: "factorial_spec n = fact n"
  by (induction n) simp_all

lemma binary64_of_nat:
  assumes "n \<le> 2 ^ 53"
  shows "binary64 (of_nat n) = Fin (of_nat n)"
proof -
  have "int n \<le> 2 ^ 53"
    using assms by (metis of_nat_le_iff of_nat_numeral of_nat_power)
  then have "\<bar>int n\<bar> \<le> 2 ^ 53" by simp
  from binary64_of_int [OF this] show ?thesis by simp
qed

lemma fact_18_small: "(fact 18 :: nat) \<le> 2 ^ 53"
  by (simp add: fact_numeral)

lemma binary64_fact:
  assumes "n \<le> 20"
  shows "binary64 (fact n) = Fin (fact n)"
proof -
  consider "n \<le> 18" | "n = 19" | "n = 20"
    using assms by linarith
  then show ?thesis
  proof cases
    case 1
    then have "(fact n :: nat) \<le> fact 18" by (rule fact_mono)
    then have "(fact n :: nat) \<le> 2 ^ 53" using fact_18_small by (rule order_trans)
    then have "binary64 (of_nat (fact n)) = Fin (of_nat (fact n))" by (rule binary64_of_nat)
    then show ?thesis by (simp only: of_nat_fact)
  next
    case 2
    have "(fact 19 :: rat) = 121645100408832000"
      by (simp add: fact_numeral)
    then show ?thesis
      using binary64_exact [of 1856156927625 16 121645100408832000] by (simp add: 2)
  next
    case 3
    have "(fact 20 :: rat) = 2432902008176640000"
      by (simp add: fact_numeral)
    then show ?thesis
      using binary64_exact [of 9280784638125 18 2432902008176640000] by (simp add: 3)
  qed
qed

lemma factorial_loop_step:
  "le i number \<Longrightarrow>
     factorial_loop number result i = factorial_loop number (mul result i) (add i (Fin 1))"
  by (subst factorial_loop.simps) simp

lemma factorial_loop_stop:
  "\<not> le i number \<Longrightarrow> factorial_loop number result i = Some result"
  by (subst factorial_loop.simps) simp

lemma le_Fin_of_nat: "le (Fin (of_nat i)) (Fin (of_nat n)) = (i \<le> n)"
  by (auto simp: le_def lt_def val_def)

lemma mul_fact_step:
  assumes "0 < i" and "i \<le> 20"
  shows "mul (Fin (fact (i - 1))) (Fin (of_nat i)) = Fin (fact i)"
proof -
  have "(fact (i - 1) :: rat) * of_nat i = fact i"
    using assms(1) by (simp add: fact_reduce [of i] mult.commute)
  moreover have "(fact i :: rat) \<noteq> 0"
    by simp
  ultimately show ?thesis
    using binary64_fact [OF assms(2)]
    by (simp add: mul_def val_def is_inf_def)
qed

lemma incr_of_nat:
  assumes "i < 2 ^ 53"
  shows "add (Fin (of_nat i)) (Fin 1) = Fin (of_nat (Suc i))"
proof -
  from assms have "Suc i \<le> 2 ^ 53" by simp
  from binary64_of_nat [OF this] have "binary64 (of_nat i + 1) = Fin (of_nat i + 1)"
    by (simp add: add.commute)
  moreover have "0 \<le> (of_nat i :: rat)" by simp
  then have "(of_nat i :: rat) + 1 \<noteq> 0" by linarith
  ultimately show ?thesis
    by (simp add: add_def val_def is_inf_def add.commute)
qed

lemma factorial_loop_fact:
  assumes "n \<le> 20" and "2 \<le> i" and "i \<le> Suc n"
  shows "factorial_loop (Fin (of_nat n)) (Fin (fact (i - 1))) (Fin (of_nat i)) =
           Some (Fin (fact n))"
  using assms(2,3)
proof (induction "Suc n - i" arbitrary: i)
  case 0
  then have i: "i = Suc n" by simp
  then have "\<not> le (Fin (of_nat i)) (Fin (of_nat n))"
    by (simp add: le_Fin_of_nat del: of_nat_Suc)
  then have "factorial_loop (Fin (of_nat n)) (Fin (fact (i - 1))) (Fin (of_nat i)) =
      Some (Fin (fact (i - 1)))"
    by (rule factorial_loop_stop)
  then show ?case
    by (simp only: i diff_Suc_1)
next
  case (Suc d)
  then have i: "i \<le> n" by simp
  with assms(1) have "i \<le> 20" and "i < 2 ^ 53" by simp_all
  moreover have "0 < i" using Suc.prems(1) by simp
  moreover have "le (Fin (of_nat i)) (Fin (of_nat n))"
    using i by (simp only: le_Fin_of_nat)
  ultimately have "factorial_loop (Fin (of_nat n)) (Fin (fact (i - 1))) (Fin (of_nat i)) =
      factorial_loop (Fin (of_nat n)) (Fin (fact (Suc i - 1))) (Fin (of_nat (Suc i)))"
    by (simp only: factorial_loop_step mul_fact_step incr_of_nat diff_Suc_1)
  also have "\<dots> = Some (Fin (fact n))"
    using Suc.hyps(2) Suc.prems i by (intro Suc.hyps(1)) simp_all
  finally show ?case .
qed

lemma factorial_closure_of_nat:
  assumes "n \<le> 20"
  shows "factorial_closure (Fin (of_nat n)) = Some (Number (Fin (fact n)))"
proof -
  consider "n = 0" | "n = 1" | "2 \<le> n" by linarith
  then show ?thesis
  proof cases
    case 1
    then show ?thesis
      by (simp add: factorial_closure_def lt_def strict_eq_def is_inf_def val_def)
  next
    case 2
    then show ?thesis
      by (simp add: factorial_closure_def lt_def strict_eq_def is_inf_def val_def)
  next
    case 3
    then have "\<not> lt (Fin (of_nat n)) (Fin 0)"
      and "\<not> strict_eq (Fin (of_nat n)) (Fin 0)" and "\<not> strict_eq (Fin (of_nat n)) (Fin 1)"
      by (simp_all add: lt_def strict_eq_def is_inf_def val_def)
    moreover have "factorial_loop (Fin (of_nat n)) (Fin 1) (Fin 2) = Some (Fin (fact n))"
      using factorial_loop_fact [OF assms, of 2] 3 by simp
    ultimately show ?thesis
      by (simp add: factorial_closure_def)
  qed
qed

text \<open>
  Claim C2. For every non-negative integer \<open>n \<le> 20\<close> the field \<^verbatim>\<open>factorial\<close> of
  \<^verbatim>\<open>performCalculations(n)\<close> is \<open>n!\<close> as the standard recursive definition gives it (so 1 for
  0 and for 1), and for every negative number the field is \<^verbatim>\<open>undefined\<close>.
\<close>

theorem performCalculations_factorial:
  "(n \<le> 20 \<longrightarrow>
      (\<exists>r. performCalculations (Number (Fin (of_nat n))) = Some (Inr r) \<and>
           factorial r = Number (Fin (of_nat (factorial_spec n))))) \<and>
   factorial_spec 0 = 1 \<and> factorial_spec 1 = 1 \<and>
   (lt x (Fin 0) \<longrightarrow>
      (\<exists>r. performCalculations (Number x) = Some (Inr r) \<and> factorial r = Undefined))"
proof -
  have "n \<le> 20 \<longrightarrow>
      (\<exists>r. performCalculations (Number (Fin (of_nat n))) = Some (Inr r) \<and>
           factorial r = Number (Fin (of_nat (factorial_spec n))))"
    by (simp add: performCalculations_def factorial_closure_of_nat factorial_spec_fact)
  moreover have "lt x (Fin 0) \<longrightarrow>
      (\<exists>r. performCalculations (Number x) = Some (Inr r) \<and> factorial r = Undefined)"
    by (auto simp: performCalculations_def factorial_closure_negative lt_def)
  ultimately show ?thesis by simp
qed

theorem performCalculations_factorial_witness:
  "(5::nat) \<le> 20 \<and>
   (\<exists>r. performCalculations (Number (Fin 5)) = Some (Inr r) \<and> factorial r = Number (Fin 120)) \<and>
   lt (Fin (- 3)) (Fin 0) \<and>
   (\<exists>r. performCalculations (Number (Fin (- 3))) = Some (Inr r) \<and> factorial r = Undefined)"
  using performCalculations_factorial [of 5 "Fin (- 3)"]
  by (simp add: lt_def val_def eval_nat_numeral)

section \<open>When performCalculations throws and when it returns\<close>

lemma throws_iff_not_number:
  "(\<exists>e. performCalculations v = Some (Inl e)) = (\<forall>x. v = Number x \<longrightarrow> x = NaN)"
  by (cases v) (auto simp: performCalculations_def split: option.splits)

lemma thrown_error_message:
  "performCalculations v = Some (Inl e) \<Longrightarrow> e = Error ''Invalid input: must be a number''"
  by (cases v) (auto simp: performCalculations_def split: option.splits if_splits)

lemma returns_iff_closure_ends:
  "x \<noteq> NaN \<Longrightarrow>
     (\<exists>r. performCalculations (Number x) = Some (Inr r)) = (factorial_closure x \<noteq> None)"
  by (auto simp: performCalculations_def split: option.splits)

lemma factorial_loop_terminates:
  assumes "q < 2 ^ 53" and "2 \<le> i"
  shows "\<exists>r. factorial_loop (Fin q) result (Fin (of_nat i)) = Some r"
  using assms(2)
proof (induction "nat \<lfloor>q\<rfloor> + 1 - i" arbitrary: i result)
  case 0
  then have "\<lfloor>q\<rfloor> < int i" by linarith
  then have "q < of_nat i"
    by (metis floor_less_iff of_int_of_nat_eq)
  then have "\<not> le (Fin (of_nat i)) (Fin q)"
    by (simp add: le_def lt_def val_def)
  then show ?case
    by (simp add: factorial_loop_stop)
next
  case (Suc d)
  show ?case
  proof (cases "le (Fin (of_nat i)) (Fin q)")
    case False
    then show ?thesis by (simp add: factorial_loop_stop)
  next
    case True
    then have "of_nat i \<le> q"
      by (simp add: le_def lt_def val_def)
    with assms(1) have "(of_nat i :: rat) < 2 ^ 53" by simp
    then have "(of_nat i :: rat) < of_nat (2 ^ 53)" by simp
    then have small: "i < 2 ^ 53" by (simp only: of_nat_less_iff)
    have "Suc d = nat \<lfloor>q\<rfloor> + 1 - i" by (rule Suc.hyps(2))
    then have "d = nat \<lfloor>q\<rfloor> + 1 - Suc i" by simp
    moreover have "2 \<le> Suc i" using Suc.prems by simp
    ultimately have "\<exists>r. factorial_loop (Fin q) (mul result (Fin (of_nat i))) (Fin (of_nat (Suc i))) = Some r"
      by (rule Suc.hyps(1))
    then show ?thesis
      by (simp only: factorial_loop_step [OF True] incr_of_nat [OF small])
  qed
qed

lemma factorial_closure_terminates:
  assumes "q < 2 ^ 53"
  shows "factorial_closure (Fin q) \<noteq> None"
proof -
  from factorial_loop_terminates [OF assms, of 2 "Fin 1"]
  obtain r where "factorial_loop (Fin q) (Fin 1) (Fin 2) = Some r" by auto
  then show ?thesis
    by (simp add: factorial_closure_def)
qed

text \<open>
  Claim C1, as stated, fails: the argument \<^verbatim>\<open>-Infinity\<close> is not a finite number, and
  \<^verbatim>\<open>performCalculations\<close> returns a result for it instead of throwing.
\<close>

theorem performCalculations_NegInf_returns:
  "performCalculations (Number NegInf) =
     Some (Inr \<lparr>squared = PosInf, cubed = NegInf, squareRoot = ''NaN'', isEven = False,
                factorial = Undefined\<rparr>)"
  by (simp add: performCalculations_def factorial_closure_def lt_def mul_def is_inf_def
      is_zero_def sign_neg_def Math_sqrt_def toFixed_def rem_def strict_eq_def)

text \<open>
  Claim C1, amended. \<^verbatim>\<open>performCalculations\<close> throws, with the message of its guard, exactly
  when the argument is not of type number or is \<^verbatim>\<open>NaN\<close>; so it throws neither for
  \<^verbatim>\<open>Infinity\<close> nor for \<^verbatim>\<open>-Infinity\<close>. It returns normally for \<^verbatim>\<open>-Infinity\<close>, for \<^verbatim>\<open>-0\<close> and for
  every finite number below \<open>2^53\<close>.
\<close>

theorem performCalculations_throws_iff:
  "((\<exists>e. performCalculations v = Some (Inl e)) = (\<forall>x. v = Number x \<longrightarrow> x = NaN)) \<and>
   (performCalculations v = Some (Inl e) \<longrightarrow> e = Error ''Invalid input: must be a number'') \<and>
   (\<exists>r. performCalculations (Number NegInf) = Some (Inr r)) \<and>
   (\<exists>r. performCalculations (Number NegZero) = Some (Inr r)) \<and>
   (q < 2 ^ 53 \<longrightarrow> (\<exists>r. performCalculations (Number (Fin q)) = Some (Inr r)))"
proof -
  have "\<exists>r. performCalculations (Number NegInf) = Some (Inr r)"
    by (simp add: returns_iff_closure_ends factorial_closure_def lt_def)
  moreover have "\<exists>r. performCalculations (Number NegZero) = Some (Inr r)"
    by (simp add: returns_iff_closure_ends factorial_closure_def lt_def strict_eq_def
        is_inf_def val_def)
  moreover have "q < 2 ^ 53 \<longrightarrow> (\<exists>r. performCalculations (Number (Fin q)) = Some (Inr r))"
    by (simp add: returns_iff_closure_ends factorial_closure_terminates)
  ultimately show ?thesis
    using throws_iff_not_number [of v] thrown_error_message [of v e]
    by blast
qed

theorem performCalculations_throws_iff_witness:
  "performCalculations (String ''seven'') = Some (Inl (Error ''Invalid input: must be a number'')) \<and>
   performCalculations (Number NaN) = Some (Inl (Error ''Invalid input: must be a number'')) \<and>
   (7 :: rat) < 2 ^ 53 \<and> (\<exists>r. performCalculations (Number (Fin 7)) = Some (Inr r)) \<and>
   (\<nexists>e. performCalculations (Number (Fin 7)) = Some (Inl e))"
  using performCalculations_throws_iff [of "String ''seven''" "Error ''Invalid input: must be a number''" 7]
    performCalculations_throws_iff [of "Number NaN" "Error ''Invalid input: must be a number''" 7]
    performCalculations_throws_iff [of "Number (Fin 7)" "Error ''Invalid input: must be a number''" 7]
  by (simp add: performCalculations_def)

subsection \<open>Where the loop of the factorial does not end\<close>

text \<open>
  The bound \<open>2^53\<close> is sharp. At \<open>2^53\<close> the increment \<^verbatim>\<open>i++\<close> rounds back to \<open>2^53\<close>, and for
  \<^verbatim>\<open>Infinity\<close> the test \<^verbatim>\<open>i <= number\<close> never fails: in both cases the loop runs forever, and
  \<^verbatim>\<open>performCalculations\<close> neither throws nor returns.
\<close>

lemma floor_half_2_53: "\<lfloor>(9007199254740993 :: rat) / 2\<rfloor> = 4503599627370496"
  by (rule floor_unique) simp_all

lemma ilog2_53: "ilog2 (2 ^ 53 + 1) = 53"
proof -
  have "ilog2 (2 ^ 53 + 1) < 54" by (rule ilog2_less) simp_all
  moreover have "\<not> ilog2 (2 ^ 53 + 1) < 53"
  proof
    assume "ilog2 (2 ^ 53 + 1) < 53"
    then have "ilog2 (2 ^ 53 + 1) + 1 \<le> 53" by simp
    then have "(2::rat) powi (ilog2 (2 ^ 53 + 1) + 1) \<le> 2 powi 53"
      by (intro power_int_increasing) simp_all
    with ilog2_upper [of "2 ^ 53 + 1"] show False by simp
  qed
  ultimately show ?thesis by simp
qed

lemma binary64_53_tie: "binary64 (2 ^ 53 + 1) = Fin (2 ^ 53)"
  using ilog2_53 by (simp add: binary64_def round_half_even_def Let_def floor_half_2_53)

lemma add_not_NaN: "x \<noteq> NaN \<Longrightarrow> add x (Fin 1) \<noteq> NaN"
  by (auto simp: add_def binary64_def Let_def is_inf_def)

lemma le_PosInf: "le i PosInf = (i \<noteq> NaN)"
  by (simp add: le_def lt_def)

lemma factorial_loop_PosInf_aux:
  assumes "factorial_loop number result i = Some y"
  shows "number = PosInf \<longrightarrow> i = NaN"
proof (rule factorial_loop.raw_induct
    [where P = "\<lambda>number result i y. number = PosInf \<longrightarrow> i = NaN", OF _ assms])
  fix loop number result i y
  assume IH: "\<And>number result i y. loop number result i = Some y \<Longrightarrow> number = PosInf \<longrightarrow> i = NaN"
    and body: "(if le i number then loop number (mul result i) (add i (Fin 1)) else Some result) = Some y"
  show "number = PosInf \<longrightarrow> i = NaN"
  proof
    assume n: "number = PosInf"
    show "i = NaN"
    proof (rule ccontr)
      assume i: "i \<noteq> NaN"
      with body n have "loop PosInf (mul result i) (add i (Fin 1)) = Some y"
        by (simp add: le_PosInf)
      from IH [OF this] have "add i (Fin 1) = NaN" by simp
      with add_not_NaN [OF i] show False by simp
    qed
  qed
qed

lemma factorial_loop_PosInf: "i \<noteq> NaN \<Longrightarrow> factorial_loop PosInf result i = None"
  using factorial_loop_PosInf_aux [of PosInf result i] by (cases "factorial_loop PosInf result i") auto

lemma diverges_at_PosInf: "performCalculations (Number PosInf) = None"
  by (simp add: performCalculations_def factorial_closure_def lt_def strict_eq_def is_inf_def
      factorial_loop_PosInf)

lemma factorial_loop_2_53_aux:
  assumes "factorial_loop number result i = Some y"
  shows "number = Fin (2 ^ 53) \<longrightarrow> (\<forall>k \<le> 2 ^ 53. i \<noteq> Fin (of_nat k))"
proof (rule factorial_loop.raw_induct
    [where P = "\<lambda>number result i y.
       number = Fin (2 ^ 53) \<longrightarrow> (\<forall>k \<le> 2 ^ 53. i \<noteq> Fin (of_nat k))", OF _ assms])
  fix loop number result i y
  assume IH: "\<And>number result i y. loop number result i = Some y \<Longrightarrow>
      number = Fin (2 ^ 53) \<longrightarrow> (\<forall>k \<le> 2 ^ 53. i \<noteq> Fin (of_nat k))"
    and body: "(if le i number then loop number (mul result i) (add i (Fin 1)) else Some result) = Some y"
  show "number = Fin (2 ^ 53) \<longrightarrow> (\<forall>k \<le> 2 ^ 53. i \<noteq> Fin (of_nat k))"
  proof (intro impI allI notI)
    fix k :: nat
    assume n: "number = Fin (2 ^ 53)" and k: "k \<le> 2 ^ 53" and i: "i = Fin (of_nat k)"
    have "(of_nat k :: rat) \<le> of_nat (2 ^ 53)"
      using k by (simp only: of_nat_le_iff)
    then have "le i number"
      by (simp add: n i le_def lt_def val_def)
    with body have call: "loop number (mul result i) (add i (Fin 1)) = Some y"
      by simp
    have "\<exists>k' \<le> 2 ^ 53. add i (Fin 1) = Fin (of_nat k')"
    proof (cases "k < 2 ^ 53")
      case True
      then have "add i (Fin 1) = Fin (of_nat (Suc k))"
        unfolding i by (rule incr_of_nat)
      moreover have "Suc k \<le> 2 ^ 53" using True by simp
      ultimately show ?thesis by blast
    next
      case False
      with k have "k = 2 ^ 53" by simp
      then have "add i (Fin 1) = Fin (of_nat k)"
        using binary64_53_tie by (simp add: i add_def val_def is_inf_def)
      with k show ?thesis by blast
    qed
    with IH [OF call] n show False by blast
  qed
qed

lemma diverges_at_2_53: "performCalculations (Number (Fin (2 ^ 53))) = None"
proof -
  have "factorial_loop (Fin (2 ^ 53)) (Fin 1) (Fin 2) = None"
    using factorial_loop_2_53_aux [of "Fin (2 ^ 53)" "Fin 1" "Fin 2"]
    by (cases "factorial_loop (Fin (2 ^ 53)) (Fin 1) (Fin 2)") (auto dest: spec [of _ 2])
  then show ?thesis
    by (simp add: performCalculations_def factorial_closure_def lt_def strict_eq_def is_inf_def
        val_def)
qed

end
